theory Spec2Isabelle
  imports Complex_Main
begin

section \<open>Data model\<close>

text \<open>
  The development follows \<^verbatim>\<open>src/script.js\<close> (classes \<^verbatim>\<open>TouchController\<close>,
  \<^verbatim>\<open>GestureRecognizer\<close> and the application class). JavaScript numbers are modelled as
  reals, \<^verbatim>\<open>Date.now()\<close> as an integer number of milliseconds. Rendering, DOM updates
  and haptic feedback are not part of the model.

  The repository holds two further copies of the application. They share the structure
  of the layout pass and of the gesture and touch handlers. They differ in constants that
  depend on the device (the height factor and the scale band of SCATTER, the gesture
  thresholds, the debounce time, the touch sensitivity); one copy limits the photos only
  on mobile devices, after the push, and switches to FOCUS on a two-finger touch start
  instead of a pinch ratio.

  Particle objects are shared between the arrays \<^verbatim>\<open>particles\<close> and \<^verbatim>\<open>photos\<close>
  and compared with \<^verbatim>\<open>===\<close>, so they live in a store: a reference is an address, the
  store maps every address to the object's fields, and the two arrays hold references.
\<close>

datatype mode = TREE | SCATTER | FOCUS

datatype error = TypeError

datatype vec3 = Vector3 (vx: real) (vy: real) (vz: real)

record particle =
  basePosition :: vec3
  targetPosition :: vec3
  velocity :: vec3
  rotationSpeed :: vec3
  scale :: real
  isPhoto :: bool

type_synonym ref = nat

text \<open>
  \<^verbatim>\<open>Math.random()\<close> is the stream of its upcoming results: \<open>rs 0\<close> is the next draw.
  \<open>skip k\<close> is the stream after \<open>k\<close> draws.
\<close>

type_synonym rng = "nat \<Rightarrow> real"

definition skip :: "nat \<Rightarrow> rng \<Rightarrow> rng" where
  "skip k rs = (\<lambda>n. rs (n + k))"

record app =
  mode :: mode
  isMobile :: bool
  maxPhotos :: nat
  heap :: "ref \<Rightarrow> particle"
  particles :: "ref list"
  photos :: "ref list"
  nextRef :: ref
  rng :: rng

text \<open>Every result of \<^verbatim>\<open>Math.random()\<close> lies in \<open>[0, 1)\<close>.\<close>

definition rngOk :: "rng \<Rightarrow> bool" where
  "rngOk rs = (\<forall>n. 0 \<le> rs n \<and> rs n < 1)"

text \<open>\<^verbatim>\<open>Vector3.length()\<close>, and the distance from the vertical (y) axis.\<close>

definition vlength :: "vec3 \<Rightarrow> real" where
  "vlength v = sqrt ((vx v)\<^sup>2 + (vy v)\<^sup>2 + (vz v)\<^sup>2)"

definition hradius :: "vec3 \<Rightarrow> real" where
  "hradius v = sqrt ((vx v)\<^sup>2 + (vz v)\<^sup>2)"

section \<open>Layout engine: \<^verbatim>\<open>updateParticlePositions\<close>\<close>

subsection \<open>TREE\<close>

definition treeMaxRadius :: "bool \<Rightarrow> real" where
  "treeMaxRadius mobile = (if mobile then 8 else 12)"

definition treeHeight :: "bool \<Rightarrow> real" where
  "treeHeight mobile = (if mobile then 18 else 25)"

definition treeRadius :: "bool \<Rightarrow> nat \<Rightarrow> nat \<Rightarrow> real" where
  "treeRadius mobile i n =
     (let t = real i / real n in treeMaxRadius mobile * (1 - t * 0.8))"

definition treeTarget :: "bool \<Rightarrow> nat \<Rightarrow> nat \<Rightarrow> vec3" where
  "treeTarget mobile i n =
     (let t = real i / real n;
          radius = treeRadius mobile i n;
          angle = t * 50 * pi;
          y = t * treeHeight mobile - treeHeight mobile / 2
      in Vector3 (cos angle * radius) y (sin angle * radius))"

definition treeStep :: "bool \<Rightarrow> nat \<Rightarrow> nat \<times> ref \<Rightarrow> (ref \<Rightarrow> particle) \<Rightarrow> (ref \<Rightarrow> particle)" where
  "treeStep mobile n ip h =
     (case ip of (i, p) \<Rightarrow>
        if isPhoto (h p) then h
        else h(p := (h p)\<lparr>targetPosition := treeTarget mobile i n,
                           scale := (if mobile then 0.8 else 1)\<rparr>))"

subsection \<open>SCATTER\<close>

definition scatterMinRadius :: "bool \<Rightarrow> real" where
  "scatterMinRadius mobile = (if mobile then 6 else 8)"

definition scatterMaxRadius :: "bool \<Rightarrow> real" where
  "scatterMaxRadius mobile = (if mobile then 15 else 20)"

text \<open>The four draws are taken in the order radius, theta, phi, height.\<close>

definition scatterTarget :: "bool \<Rightarrow> real \<Rightarrow> real \<Rightarrow> real \<Rightarrow> real \<Rightarrow> vec3" where
  "scatterTarget mobile u0 u1 u2 u3 =
     (let radius = scatterMinRadius mobile
                     + u0 * (scatterMaxRadius mobile - scatterMinRadius mobile);
          theta = u1 * pi * 2;
          phi = arccos (2 * u2 - 1)
      in Vector3 (radius * sin phi * cos theta)
                 ((u3 - 0.5) * scatterMaxRadius mobile * 1.5)
                 (radius * sin phi * sin theta))"

definition scatterStep :: "bool \<Rightarrow> ref \<Rightarrow> (ref \<Rightarrow> particle) \<times> rng \<Rightarrow> (ref \<Rightarrow> particle) \<times> rng" where
  "scatterStep mobile p hr =
     (case hr of (h, rs) \<Rightarrow>
        if isPhoto (h p) then (h, rs)
        else (h(p := (h p)\<lparr>targetPosition := scatterTarget mobile (rs 0) (rs 1) (rs 2) (rs 3),
                            scale := 0.8 + rs 4 * 0.4\<rparr>),
              skip 5 rs))"

subsection \<open>FOCUS\<close>

definition stagePosition :: "bool \<Rightarrow> vec3" where
  "stagePosition mobile = Vector3 0 2 (if mobile then 25 else 35)"

definition stageScale :: "bool \<Rightarrow> real" where
  "stageScale mobile = (if mobile then 3.5 else 4.5)"

definition focusMinRadius :: "bool \<Rightarrow> real" where
  "focusMinRadius mobile = (if mobile then 8 else 10)"

definition focusMaxRadius :: "bool \<Rightarrow> real" where
  "focusMaxRadius mobile = (if mobile then 20 else 25)"

text \<open>The inner edge of the ring of the photos that are not the subject.\<close>

definition otherPhotoMinRadius :: "bool \<Rightarrow> real" where
  "otherPhotoMinRadius mobile = (if mobile then 15 else 20)"

definition otherPhotoTarget :: "bool \<Rightarrow> real \<Rightarrow> real \<Rightarrow> real \<Rightarrow> vec3" where
  "otherPhotoTarget mobile u0 u1 u2 =
     (let angle = u0 * pi * 2;
          radius = otherPhotoMinRadius mobile + u1 * 10
      in Vector3 (cos angle * radius) ((u2 - 0.5) * 10) (sin angle * radius))"

definition backgroundTarget :: "bool \<Rightarrow> real \<Rightarrow> real \<Rightarrow> real \<Rightarrow> real \<Rightarrow> vec3" where
  "backgroundTarget mobile u0 u1 u2 u3 =
     (let radius = focusMinRadius mobile
                     + u0 * (focusMaxRadius mobile - focusMinRadius mobile);
          theta = u1 * pi * 2;
          phi = arccos (2 * u2 - 1)
      in Vector3 (radius * sin phi * cos theta)
                 ((u3 - 0.5) * focusMaxRadius mobile)
                 (radius * sin phi * sin theta))"

definition focusStep :: "bool \<Rightarrow> ref \<Rightarrow> ref \<Rightarrow> (ref \<Rightarrow> particle) \<times> rng \<Rightarrow> (ref \<Rightarrow> particle) \<times> rng" where
  "focusStep mobile targetPhoto p hr =
     (case hr of (h, rs) \<Rightarrow>
        if p = targetPhoto then (h, rs)
        else if isPhoto (h p) then
          (h(p := (h p)\<lparr>targetPosition := otherPhotoTarget mobile (rs 0) (rs 1) (rs 2),
                         scale := (if mobile then 0.8 else 1)\<rparr>),
           skip 3 rs)
        else
          (h(p := (h p)\<lparr>targetPosition := backgroundTarget mobile (rs 0) (rs 1) (rs 2) (rs 3),
                         scale := 0.5 + rs 4 * 0.5\<rparr>),
           skip 5 rs))"

subsection \<open>The layout pass\<close>

text \<open>
  \<^verbatim>\<open>forEach\<close> is a fold over the array of references. In FOCUS mode the subject is
  \<^verbatim>\<open>photos[Math.floor(Math.random() * photos.length)]\<close>; an index outside the
  array would give \<^verbatim>\<open>undefined\<close>, whose field access throws.
\<close>

definition updateParticlePositions :: "app \<Rightarrow> error + app" where
  "updateParticlePositions a =
     (case mode a of
        TREE \<Rightarrow>
          Inr (a\<lparr>heap := fold (treeStep (isMobile a) (length (particles a)))
                               (enumerate 0 (particles a)) (heap a)\<rparr>)
      | SCATTER \<Rightarrow>
          (case fold (scatterStep (isMobile a)) (particles a) (heap a, rng a) of
             (h, rs) \<Rightarrow> Inr (a\<lparr>heap := h, rng := rs\<rparr>))
      | FOCUS \<Rightarrow>
          if length (photos a) > 0 then
            (let k = \<lfloor>rng a 0 * real (length (photos a))\<rfloor> in
             if 0 \<le> k \<and> k < int (length (photos a)) then
               (let targetPhoto = photos a ! nat k;
                    h1 = (heap a)(targetPhoto := (heap a targetPhoto)
                            \<lparr>targetPosition := stagePosition (isMobile a),
                             scale := stageScale (isMobile a)\<rparr>)
                in case fold (focusStep (isMobile a) targetPhoto) (particles a)
                          (h1, skip 1 (rng a)) of
                     (h, rs) \<Rightarrow> Inr (a\<lparr>heap := h, rng := rs\<rparr>))
             else Inl TypeError)
          else Inr a)"

definition setMode :: "mode \<Rightarrow> app \<Rightarrow> error + app" where
  "setMode m a = updateParticlePositions (a\<lparr>mode := m\<rparr>)"

section \<open>Photo particles: \<^verbatim>\<open>addPhotoToScene\<close>\<close>

text \<open>
  The new object gets the address \<open>nextRef\<close>. Four draws are taken: angle, radius and
  height of the initial position, and the initial rotation of the mesh (which belongs to
  the renderer). When the limit is reached the oldest photo is shifted out of
  \<^verbatim>\<open>photos\<close> and filtered out of \<^verbatim>\<open>particles\<close> by identity;
  \<^verbatim>\<open>shift()\<close> on an empty array gives \<^verbatim>\<open>undefined\<close>, and reading
  \<^verbatim>\<open>oldPhoto.mesh\<close> then throws.
\<close>

definition photoParticle :: "bool \<Rightarrow> real \<Rightarrow> real \<Rightarrow> real \<Rightarrow> particle" where
  "photoParticle mobile u0 u1 u2 =
     (let angle = u0 * pi * 2;
          radius = (if mobile then 10 else 15) + u1 * 10
      in \<lparr>basePosition = Vector3 (cos angle * radius) ((u2 - 0.5) * 15) (sin angle * radius),
          targetPosition = Vector3 0 0 0,
          velocity = Vector3 0 0 0,
          rotationSpeed = Vector3 0 0 0,
          scale = 1,
          isPhoto = True\<rparr>)"

definition pushPhoto :: "app \<Rightarrow> app" where
  "pushPhoto a =
     a\<lparr>heap := (heap a)(nextRef a := photoParticle (isMobile a) (rng a 0) (rng a 1) (rng a 2)),
       particles := particles a @ [nextRef a],
       photos := photos a @ [nextRef a],
       nextRef := Suc (nextRef a),
       rng := skip 4 (rng a)\<rparr>"

definition addPhotoToScene :: "app \<Rightarrow> error + app" where
  "addPhotoToScene a =
     (if length (photos a) \<ge> maxPhotos a then
        (case photos a of
           [] \<Rightarrow> Inl TypeError
         | oldPhoto # rest \<Rightarrow>
             Inr (pushPhoto (a\<lparr>photos := rest,
                                particles := filter (\<lambda>p. p \<noteq> oldPhoto) (particles a)\<rparr>)))
      else Inr (pushPhoto a))"

text \<open>A sequence of \<open>n\<close> uploads; the first failure ends it.\<close>

fun addPhotos :: "nat \<Rightarrow> app \<Rightarrow> error + app" where
  "addPhotos 0 a = Inr a"
| "addPhotos (Suc n) a =
     (case addPhotoToScene a of Inl e \<Rightarrow> Inl e | Inr a' \<Rightarrow> addPhotos n a')"

text \<open>
  The state the application maintains: \<^verbatim>\<open>particles\<close> holds each object once, every
  object in use was allocated before \<open>nextRef\<close>, and \<^verbatim>\<open>photos\<close> is the sub-array of
  the photo particles of \<^verbatim>\<open>particles\<close>, in the same order.
\<close>

definition consistent :: "app \<Rightarrow> bool" where
  "consistent a =
     (distinct (particles a) \<and> (\<forall>r \<in> set (particles a). r < nextRef a) \<and>
      filter (\<lambda>r. isPhoto (heap a r)) (particles a) = photos a)"

definition photoCount :: "app \<Rightarrow> nat" where
  "photoCount a = length (filter (\<lambda>r. isPhoto (heap a r)) (particles a))"

section \<open>Hand gestures: \<^verbatim>\<open>GestureRecognizer.processGestures\<close>\<close>

datatype landmark = Landmark (lx: real) (ly: real) (lz: real)

record gestureRecognizer =
  lastGestureTime :: int
  debounceTime :: int

text \<open>The constructor's values.\<close>

definition newGestureRecognizer :: gestureRecognizer where
  "newGestureRecognizer = \<lparr>lastGestureTime = 0, debounceTime = 500\<rparr>"

text \<open>\<^verbatim>\<open>Math.hypot\<close> of three arguments.\<close>

definition hypot :: "real \<Rightarrow> real \<Rightarrow> real \<Rightarrow> real" where
  "hypot a b c = sqrt (a\<^sup>2 + b\<^sup>2 + c\<^sup>2)"

definition pinchDistance :: "landmark list \<Rightarrow> real" where
  "pinchDistance landmarks =
     (let thumbTip = landmarks ! 4; indexTip = landmarks ! 8
      in hypot (lx thumbTip - lx indexTip) (ly thumbTip - ly indexTip)
               (lz thumbTip - lz indexTip))"

definition wristDistance :: "landmark \<Rightarrow> landmark \<Rightarrow> real" where
  "wristDistance tip wrist = hypot (lx tip - lx wrist) (ly tip - ly wrist) (lz tip - lz wrist)"

definition avgDistance :: "landmark list \<Rightarrow> real" where
  "avgDistance landmarks =
     (let wrist = landmarks ! 0;
          distances = [wristDistance (landmarks ! 8) wrist, wristDistance (landmarks ! 12) wrist,
                       wristDistance (landmarks ! 16) wrist, wristDistance (landmarks ! 20) wrist]
      in foldl (+) (hd distances) (tl distances) / real (length distances))"

text \<open>
  A successful transition records its time. The debounce test comes before any landmark
  is read; a frame with fewer than 21 landmarks makes a later field access throw.
\<close>

definition transition :: "gestureRecognizer \<Rightarrow> app \<Rightarrow> int \<Rightarrow> mode
                             \<Rightarrow> error + (gestureRecognizer \<times> app)" where
  "transition g a now m =
     (case setMode m a of
        Inl e \<Rightarrow> Inl e
      | Inr a' \<Rightarrow> Inr (g\<lparr>lastGestureTime := now\<rparr>, a'))"

definition processGestures :: "gestureRecognizer \<times> app \<Rightarrow> int \<Rightarrow> landmark list
                                 \<Rightarrow> error + (gestureRecognizer \<times> app)" where
  "processGestures ga now landmarks =
     (case ga of (g, a) \<Rightarrow>
        if now - lastGestureTime g < debounceTime g then Inr (g, a)
        else if length landmarks \<le> 20 then Inl TypeError
        else if pinchDistance landmarks < 0.05 \<and> mode a \<noteq> FOCUS then transition g a now FOCUS
        else if avgDistance landmarks < 0.25 \<and> mode a \<noteq> TREE then transition g a now TREE
        else if avgDistance landmarks > 0.4 \<and> mode a \<noteq> SCATTER then transition g a now SCATTER
        else Inr (g, a))"

text \<open>
  A frame qualifies in a mode when it meets the threshold of a transition to another mode.
\<close>

definition qualifying :: "mode \<Rightarrow> landmark list \<Rightarrow> bool" where
  "qualifying m landmarks =
     (length landmarks > 20 \<and>
      ((pinchDistance landmarks < 0.05 \<and> m \<noteq> FOCUS) \<or>
       (avgDistance landmarks < 0.25 \<and> m \<noteq> TREE) \<or>
       (avgDistance landmarks > 0.4 \<and> m \<noteq> SCATTER)))"

section \<open>Touch: \<^verbatim>\<open>TouchController.handleTouchMove\<close>\<close>

datatype touch = Touch (clientX: real) (clientY: real)

text \<open>\<open>longPressTimer\<close> tells whether a long-press timer is pending.\<close>

record touchController =
  touchStartPosX :: real
  touchStartPosY :: real
  touchRotationX :: real
  touchRotationY :: real
  longPressTimer :: bool
  pinchStartDistance :: real
  sensitivity :: real

definition newTouchController :: touchController where
  "newTouchController =
     \<lparr>touchStartPosX = 0, touchStartPosY = 0, touchRotationX = 0, touchRotationY = 0,
      longPressTimer = False, pinchStartDistance = 0, sensitivity = 0.005\<rparr>"

definition getTouchDistance :: "touch \<Rightarrow> touch \<Rightarrow> real" where
  "getTouchDistance touch1 touch2 =
     (let dx = clientX touch1 - clientX touch2;
          dy = clientY touch1 - clientY touch2
      in sqrt (dx * dx + dy * dy))"

definition handleTouchMove :: "touchController \<times> app \<Rightarrow> touch list
                                 \<Rightarrow> error + (touchController \<times> app)" where
  "handleTouchMove ta touches =
     (case ta of (tc, a) \<Rightarrow>
        if length touches = 1 \<and> touchStartPosX tc \<noteq> 0 then
          (let t = touches ! 0;
               deltaX = clientX t - touchStartPosX tc;
               deltaY = clientY t - touchStartPosY tc;
               ry = touchRotationY tc + deltaX * sensitivity tc;
               rx = touchRotationX tc + deltaY * sensitivity tc
           in Inr (tc\<lparr>touchRotationY := ry,
                       touchRotationX := max (- pi / 3) (min (pi / 3) rx),
                       touchStartPosX := clientX t,
                       touchStartPosY := clientY t,
                       longPressTimer := False\<rparr>, a))
        else if length touches = 2 \<and> pinchStartDistance tc > 0 then
          (let currentDistance = getTouchDistance (touches ! 0) (touches ! 1);
               pinchRatio = currentDistance / pinchStartDistance tc
           in if pinchRatio < 0.7 \<and> mode a \<noteq> FOCUS then
                (case setMode FOCUS a of
                   Inl e \<Rightarrow> Inl e
                 | Inr a' \<Rightarrow> Inr (tc\<lparr>pinchStartDistance := 0\<rparr>, a'))
              else Inr (tc, a))
        else Inr (tc, a))"

text \<open>
  \<^verbatim>\<open>handleTouchStart\<close>: one finger records where the drag starts and arms the
  long-press timer, two fingers record the distance at which the pinch starts.
\<close>

definition handleTouchStart :: "touchController \<Rightarrow> touch list \<Rightarrow> touchController" where
  "handleTouchStart tc touches =
     (if length touches = 1 then
        tc\<lparr>touchStartPosX := clientX (touches ! 0), touchStartPosY := clientY (touches ! 0),
           longPressTimer := True\<rparr>
      else if length touches = 2 then
        tc\<lparr>pinchStartDistance := getTouchDistance (touches ! 0) (touches ! 1),
           longPressTimer := False\<rparr>
      else tc)"

text \<open>
  A drag of one finger from \<open>(1, 0)\<close> to \<open>(101, 0)\<close>, and \<open>k\<close> such drags in a row. The
  touch-end events between them do not touch the rotation and are left out.
\<close>

definition dragOnce :: "touchController \<times> app \<Rightarrow> error + (touchController \<times> app)" where
  "dragOnce ta =
     (case ta of (tc, a) \<Rightarrow> handleTouchMove (handleTouchStart tc [Touch 1 0], a) [Touch 101 0])"

fun drags :: "nat \<Rightarrow> touchController \<times> app \<Rightarrow> error + (touchController \<times> app)" where
  "drags 0 ta = Inr ta"
| "drags (Suc k) ta = (case dragOnce ta of Inl e \<Rightarrow> Inl e | Inr ta' \<Rightarrow> drags k ta')"

section \<open>Auxiliary notions for the properties\<close>

text \<open>The fields of a particle that a layout pass is not meant to write.\<close>

definition sameFrame :: "particle \<Rightarrow> particle \<Rightarrow> bool" where
  "sameFrame p q =
     (basePosition q = basePosition p \<and> velocity q = velocity p \<and>
      rotationSpeed q = rotationSpeed p \<and> isPhoto q = isPhoto p)"

text \<open>
  Small concrete states: a desktop scene with the decorative particle 0 and the photo
  particles 1 and 2 (the photo limit being 2), and the same scene without photos.
\<close>

definition exampleHeap :: "ref \<Rightarrow> particle" where
  "exampleHeap r =
     \<lparr>basePosition = Vector3 1 1 1, targetPosition = Vector3 0 0 0,
      velocity = Vector3 0 0 0, rotationSpeed = Vector3 0 0 0,
      scale = 1, isPhoto = (r = 1 \<or> r = 2)\<rparr>"

definition exampleApp :: "mode \<Rightarrow> rng \<Rightarrow> app" where
  "exampleApp m rs =
     \<lparr>mode = m, isMobile = False, maxPhotos = 2, heap = exampleHeap,
      particles = [0, 1, 2], photos = [1, 2], nextRef = 3, rng = rs\<rparr>"

definition decorApp :: "mode \<Rightarrow> rng \<Rightarrow> app" where
  "decorApp m rs =
     \<lparr>mode = m, isMobile = False, maxPhotos = 2, heap = exampleHeap,
      particles = [0], photos = [], nextRef = 3, rng = rs\<rparr>"

text \<open>
  A TREE scene on a desktop: the decorative particle 0 at index 0, the photo particle 1 at
  index 1 and the decorative particle 3 at index 2.
\<close>

definition treeScene :: app where
  "treeScene =
     \<lparr>mode = TREE, isMobile = False, maxPhotos = 2, heap = exampleHeap,
      particles = [0, 1, 3], photos = [1], nextRef = 4, rng = (\<lambda>_. 0)\<rparr>"

text \<open>A stream of draws given by its first results, all later ones being 0.\<close>

definition drawsFrom :: "real list \<Rightarrow> rng" where
  "drawsFrom us n = (if n < length us then us ! n else 0)"

text \<open>The bounds that a SCATTER target does satisfy.\<close>

definition scatterBound :: "bool \<Rightarrow> vec3 \<Rightarrow> bool" where
  "scatterBound mobile v =
     (hradius v \<le> scatterMaxRadius mobile \<and> \<bar>vy v\<bar> \<le> 3 / 4 * scatterMaxRadius mobile \<and>
      vlength v \<le> 5 / 4 * scatterMaxRadius mobile)"

text \<open>
  Two SCATTER scenes with one decorative particle: in the first the draws are
  0, 0, 0, 1/2 (then 0), in the second 9/10, 0, 1/2, 9/10 (then 0).
\<close>

definition scatterLow :: app where
  "scatterLow = decorApp SCATTER (drawsFrom [0, 0, 0, 1 / 2])"

definition scatterHigh :: app where
  "scatterHigh = decorApp SCATTER (drawsFrom [9 / 10, 0, 1 / 2, 9 / 10])"

text \<open>
  Two hand frames. In \<open>fistFrame\<close> the fingertips are 0.1 from the wrist and the thumb tip
  is 0.03 from the index tip: a closed hand that also pinches. In \<open>openFrame\<close> the
  fingertips are 0.5 from the wrist and the thumb tip is 0.2 from the index tip.
\<close>

definition fistFrame :: "landmark list" where
  "fistFrame = (replicate 21 (Landmark 0.5 0.4 0))[0 := Landmark 0.5 0.5 0, 4 := Landmark 0.5 0.43 0]"

definition openFrame :: "landmark list" where
  "openFrame = (replicate 21 (Landmark 0.5 0.4 0))[0 := Landmark 0.5 0.9 0, 4 := Landmark 0.3 0.4 0]"

section \<open>Properties of the TREE layout\<close>

lemma treeRadius_antimono:
  assumes "1 \<le> n" "i \<le> j"
  shows "treeRadius mobile j n \<le> treeRadius mobile i n"
proof -
  have "real i / real n \<le> real j / real n"
    using assms by (simp add: divide_right_mono)
  moreover have "0 \<le> treeMaxRadius mobile"
    by (simp add: treeMaxRadius_def)
  ultimately show ?thesis
    by (simp add: treeRadius_def Let_def mult_left_mono)
qed

lemma treeRadius_lower:
  assumes "1 \<le> n" "j \<le> n"
  shows "0.2 * treeMaxRadius mobile \<le> treeRadius mobile j n"
proof -
  have "real j / real n \<le> 1"
    using assms by simp
  moreover have "0 \<le> treeMaxRadius mobile"
    by (simp add: treeMaxRadius_def)
  ultimately have "treeMaxRadius mobile * 0.2 \<le> treeMaxRadius mobile * (1 - real j / real n * 0.8)"
    by (intro mult_left_mono) simp_all
  then show ?thesis
    by (simp add: treeRadius_def Let_def mult.commute)
qed

text \<open>A point written in polar form lies at its radius from the vertical axis.\<close>

lemma hradius_polar:
  assumes "0 \<le> r"
  shows "hradius (Vector3 (cos w * r) y (sin w * r)) = r"
proof -
  have "(cos w * r)\<^sup>2 + (sin w * r)\<^sup>2 = r\<^sup>2 * ((cos w)\<^sup>2 + (sin w)\<^sup>2)"
    by (simp only: power_mult_distrib distrib_left mult.commute)
  also have "\<dots> = r\<^sup>2"
    by simp
  finally show ?thesis
    using assms by (simp add: hradius_def)
qed

lemma treeTarget_hradius:
  assumes "1 \<le> n" "j \<le> n"
  shows "hradius (treeTarget mobile j n) = treeRadius mobile j n"
proof -
  have "0 \<le> treeMaxRadius mobile"
    by (simp add: treeMaxRadius_def)
  with treeRadius_lower[OF assms, of mobile] have "0 \<le> treeRadius mobile j n"
    by linarith
  then show ?thesis
    by (simp add: treeTarget_def Let_def hradius_polar)
qed

lemma treeStep_other:
  "p \<noteq> r \<Longrightarrow> treeStep mobile n (i, p) h r = h r"
  by (simp add: treeStep_def)

lemma treeStep_isPhoto:
  "isPhoto (treeStep mobile n ip h r) = isPhoto (h r)"
  by (cases ip) (simp add: treeStep_def)

lemma treeStep_target:
  "\<not> isPhoto (h p) \<Longrightarrow> targetPosition (treeStep mobile n (i, p) h p) = treeTarget mobile i n"
  by (simp add: treeStep_def)

lemma tree_fold_other:
  "r \<notin> set ps \<Longrightarrow> fold (treeStep mobile n) (enumerate k ps) h r = h r"
  by (induction ps arbitrary: k h) (simp_all add: treeStep_other)

text \<open>
  In an array without repetitions, the decorative particle at position \<open>i\<close> ends with the
  target computed from its own index.
\<close>

lemma tree_fold_target:
  assumes "distinct ps" and "i < length ps" and "\<not> isPhoto (h (ps ! i))"
  shows "targetPosition (fold (treeStep mobile n) (enumerate k ps) h (ps ! i))
       = treeTarget mobile (k + i) n"
  using assms
proof (induction ps arbitrary: k h i)
  case Nil
  then show ?case by simp
next
  case (Cons p ps)
  show ?case
  proof (cases i)
    case 0
    have "p \<notin> set ps"
      using Cons.prems(1) by simp
    then have "fold (treeStep mobile n) (enumerate (Suc k) ps) (treeStep mobile n (k, p) h) p
        = treeStep mobile n (k, p) h p"
      by (rule tree_fold_other)
    moreover have "\<not> isPhoto (h p)"
      using Cons.prems(3) 0 by simp
    ultimately show ?thesis
      using 0 by (simp add: treeStep_target)
  next
    case (Suc i')
    have "distinct ps" and "i' < length ps"
      using Cons.prems(1,2) Suc by simp_all
    moreover have "\<not> isPhoto (treeStep mobile n (k, p) h (ps ! i'))"
      using Cons.prems(3) Suc by (simp add: treeStep_isPhoto)
    ultimately have "targetPosition (fold (treeStep mobile n) (enumerate (Suc k) ps)
        (treeStep mobile n (k, p) h) (ps ! i')) = treeTarget mobile (Suc k + i') n"
      by (rule Cons.IH)
    then show ?thesis
      using Suc by simp
  qed
qed

lemma tree_pass_target:
  assumes "mode a = TREE" and "distinct (particles a)" and "i < length (particles a)"
      and "\<not> isPhoto (heap a (particles a ! i))"
      and "updateParticlePositions a = Inr a'"
  shows "targetPosition (heap a' (particles a ! i)) = treeTarget (isMobile a) i (length (particles a))"
proof -
  have "heap a' = fold (treeStep (isMobile a) (length (particles a)))
      (enumerate 0 (particles a)) (heap a)"
    using assms(1,5) by (auto simp add: updateParticlePositions_def)
  then show ?thesis
    using tree_fold_target[of "particles a" i "heap a" "isMobile a" "length (particles a)" 0]
      assms(2,3,4) by simp
qed

lemma treeRadius_formula:
  "treeRadius mobile i n = treeMaxRadius mobile * (1 - 0.8 * (real i / real n))"
  by (simp add: treeRadius_def Let_def mult.commute)

text \<open>
  Claim C6. In a TREE pass over \<open>n \<ge> 1\<close> particles, the decorative particle at index
  \<open>i\<close> of the array is stored at the target computed from \<open>i\<close>, whose distance from
  the vertical axis is the radius \<open>maxRadius \<cdot> (1 - 0.8 \<cdot> i/n)\<close>. For decorative
  particles at indices \<open>i \<le> j\<close> the radius at \<open>j\<close> is at most the radius at \<open>i\<close>: it
  does not increase with the index. It is \<open>maxRadius\<close> at index 0 and never falls below
  \<open>0.2 \<cdot> maxRadius\<close>, the value of the formula at \<open>i = n\<close>. The index counts the
  photo particles of the array, which the pass skips.
\<close>

theorem tree_radius_monotone:
  assumes "mode a = TREE" and "distinct (particles a)"
      and "i \<le> j" and "j < length (particles a)"
      and "\<not> isPhoto (heap a (particles a ! i))" and "\<not> isPhoto (heap a (particles a ! j))"
  shows "\<exists>a'. updateParticlePositions a = Inr a'
       \<and> targetPosition (heap a' (particles a ! i))
            = treeTarget (isMobile a) i (length (particles a))
       \<and> hradius (targetPosition (heap a' (particles a ! i)))
            = treeMaxRadius (isMobile a) * (1 - 0.8 * (real i / real (length (particles a))))
       \<and> hradius (targetPosition (heap a' (particles a ! j)))
            = treeMaxRadius (isMobile a) * (1 - 0.8 * (real j / real (length (particles a))))
       \<and> hradius (targetPosition (heap a' (particles a ! j)))
            \<le> hradius (targetPosition (heap a' (particles a ! i)))
       \<and> 0.2 * treeMaxRadius (isMobile a) \<le> hradius (targetPosition (heap a' (particles a ! j)))
       \<and> hradius (targetPosition (heap a' (particles a ! i))) \<le> treeMaxRadius (isMobile a)
       \<and> (i = 0 \<longrightarrow> hradius (targetPosition (heap a' (particles a ! i))) = treeMaxRadius (isMobile a))"
proof -
  define n where "n = length (particles a)"
  define m where "m = isMobile a"
  have n: "1 \<le> n" and jn: "j \<le> n" and i_lt: "i < length (particles a)" and "i \<le> n"
    using assms(3,4) by (simp_all add: n_def)
  obtain a' where ret: "updateParticlePositions a = Inr a'"
    using assms(1) by (simp add: updateParticlePositions_def)
  have ti: "targetPosition (heap a' (particles a ! i)) = treeTarget m i n"
    unfolding m_def n_def using assms(1,2) i_lt assms(5) ret by (rule tree_pass_target)
  have tj: "targetPosition (heap a' (particles a ! j)) = treeTarget m j n"
    unfolding m_def n_def using assms(1,2,4,6) ret by (rule tree_pass_target)
  have hi: "hradius (treeTarget m i n) = treeRadius m i n"
    using n \<open>i \<le> n\<close> by (rule treeTarget_hradius)
  have hj: "hradius (treeTarget m j n) = treeRadius m j n"
    using n jn by (rule treeTarget_hradius)
  have mono: "treeRadius m j n \<le> treeRadius m i n"
    using n assms(3) by (rule treeRadius_antimono)
  have low: "0.2 * treeMaxRadius m \<le> treeRadius m j n"
    using n jn by (rule treeRadius_lower)
  have zero: "treeRadius m 0 n = treeMaxRadius m"
    by (simp add: treeRadius_def)
  have "treeRadius m i n \<le> treeRadius m 0 n"
    using n by (rule treeRadius_antimono) simp
  with zero have up: "treeRadius m i n \<le> treeMaxRadius m"
    by simp
  have "targetPosition (heap a' (particles a ! i)) = treeTarget m i n
       \<and> hradius (targetPosition (heap a' (particles a ! i))) = treeMaxRadius m * (1 - 0.8 * (real i / real n))
       \<and> hradius (targetPosition (heap a' (particles a ! j))) = treeMaxRadius m * (1 - 0.8 * (real j / real n))
       \<and> hradius (targetPosition (heap a' (particles a ! j)))
            \<le> hradius (targetPosition (heap a' (particles a ! i)))
       \<and> 0.2 * treeMaxRadius m \<le> hradius (targetPosition (heap a' (particles a ! j)))
       \<and> hradius (targetPosition (heap a' (particles a ! i))) \<le> treeMaxRadius m
       \<and> (i = 0 \<longrightarrow> hradius (targetPosition (heap a' (particles a ! i))) = treeMaxRadius m)"
    unfolding ti tj hi hj
    using mono low up zero by (auto simp add: treeRadius_formula)
  with ret show ?thesis
    unfolding m_def n_def by blast
qed

theorem tree_radius_monotone_witness:
  "mode treeScene = TREE \<and> particles treeScene = [0, 1, 3]
   \<and> \<not> isPhoto (heap treeScene 0) \<and> isPhoto (heap treeScene 1) \<and> \<not> isPhoto (heap treeScene 3)
   \<and> (\<exists>a'. updateParticlePositions treeScene = Inr a'
        \<and> hradius (targetPosition (heap a' 0)) = 12
        \<and> hradius (targetPosition (heap a' 3)) = 28 / 5
        \<and> hradius (targetPosition (heap a' 3)) \<le> hradius (targetPosition (heap a' 0)))"
proof -
  have h: "mode treeScene = TREE" "distinct (particles treeScene)" "(0::nat) \<le> 2"
    "2 < length (particles treeScene)"
    "\<not> isPhoto (heap treeScene (particles treeScene ! 0))"
    "\<not> isPhoto (heap treeScene (particles treeScene ! 2))"
    by (simp_all add: treeScene_def exampleHeap_def)
  have e: "particles treeScene = [0, 1, 3]" "isMobile treeScene = False"
    "\<not> isPhoto (heap treeScene 0)" "isPhoto (heap treeScene 1)" "\<not> isPhoto (heap treeScene 3)"
    by (simp_all add: treeScene_def exampleHeap_def)
  from tree_radius_monotone[OF h] h(1) e show ?thesis
    by (auto simp add: treeMaxRadius_def)
qed

section \<open>Properties of the layout pass\<close>

lemma fold_invariant:
  assumes "\<And>x s. P s \<Longrightarrow> P (f x s)" and "P s"
  shows "P (fold f xs s)"
  using assms(2) by (induction xs arbitrary: s) (simp_all add: assms(1))

lemma rngOk_skip: "rngOk rs \<Longrightarrow> rngOk (skip k rs)"
  by (simp add: rngOk_def skip_def)

lemma sameFrame_refl: "sameFrame p p"
  by (simp add: sameFrame_def)

lemma treeStep_frame:
  "sameFrame p (h r) \<Longrightarrow> sameFrame p (treeStep mobile n ip h r)"
  by (cases ip) (auto simp add: treeStep_def sameFrame_def)

lemma treeStep_photo:
  "isPhoto (h r) \<and> h r = p \<Longrightarrow> isPhoto (treeStep mobile n ip h r) \<and> treeStep mobile n ip h r = p"
  by (cases ip) (auto simp add: treeStep_def)

lemma scatterStep_frame:
  "sameFrame p (fst hr r) \<Longrightarrow> sameFrame p (fst (scatterStep mobile q hr) r)"
  by (cases hr) (auto simp add: scatterStep_def sameFrame_def)

lemma scatterStep_photo:
  "isPhoto (fst hr r) \<and> fst hr r = p \<Longrightarrow>
   isPhoto (fst (scatterStep mobile q hr) r) \<and> fst (scatterStep mobile q hr) r = p"
  by (cases hr) (auto simp add: scatterStep_def)

lemma focusStep_frame:
  "sameFrame p (fst hr r) \<Longrightarrow> sameFrame p (fst (focusStep mobile t q hr) r)"
  by (cases hr) (auto simp add: focusStep_def sameFrame_def)

lemma tree_fold_frame:
  "sameFrame (h r) (fold (treeStep mobile n) ips h r)"
  by (rule fold_invariant[where P = "\<lambda>h'. sameFrame (h r) (h' r)"])
     (simp_all add: treeStep_frame sameFrame_refl)

lemma tree_fold_photo:
  "isPhoto (h r) \<Longrightarrow> fold (treeStep mobile n) ips h r = h r"
  using fold_invariant[where P = "\<lambda>h'. isPhoto (h' r) \<and> h' r = h r"
      and f = "treeStep mobile n" and s = h and xs = ips]
  by (simp add: treeStep_photo)

lemma scatter_fold_frame:
  "sameFrame (h r) (fst (fold (scatterStep mobile) ps (h, rs)) r)"
  by (rule fold_invariant[where P = "\<lambda>hr. sameFrame (h r) (fst hr r)"])
     (simp_all add: scatterStep_frame sameFrame_refl)

lemma scatter_fold_photo:
  "isPhoto (h r) \<Longrightarrow> fst (fold (scatterStep mobile) ps (h, rs)) r = h r"
  using fold_invariant[where P = "\<lambda>hr. isPhoto (fst hr r) \<and> fst hr r = h r"
      and f = "scatterStep mobile" and s = "(h, rs)" and xs = ps]
  by (simp add: scatterStep_photo)

lemma focus_fold_frame:
  "sameFrame (h r) (fst (fold (focusStep mobile t) ps (h, rs)) r)"
  by (rule fold_invariant[where P = "\<lambda>hr. sameFrame (h r) (fst hr r)"])
     (simp_all add: focusStep_frame sameFrame_refl)

lemma focus_no_photos:
  "mode a = FOCUS \<Longrightarrow> photos a = [] \<Longrightarrow> updateParticlePositions a = Inr a"
  by (simp add: updateParticlePositions_def)

lemma update_lists:
  assumes "updateParticlePositions a = Inr a'"
  shows "particles a' = particles a \<and> photos a' = photos a \<and> mode a' = mode a
       \<and> isMobile a' = isMobile a \<and> maxPhotos a' = maxPhotos a \<and> nextRef a' = nextRef a"
  using assms
  by (cases "mode a")
     (auto simp add: updateParticlePositions_def Let_def split: prod.splits if_splits)

lemma update_frame:
  assumes "updateParticlePositions a = Inr a'"
  shows "sameFrame (heap a r) (heap a' r)"
proof (cases "mode a")
  case TREE
  with assms show ?thesis
    by (auto simp add: updateParticlePositions_def tree_fold_frame)
next
  case SCATTER
  with assms scatter_fold_frame[of "heap a" r "isMobile a" "particles a" "rng a"]
  show ?thesis
    by (auto simp add: updateParticlePositions_def split: prod.splits)
next
  case FOCUS
  show ?thesis
  proof (cases "photos a = []")
    case True
    with FOCUS assms show ?thesis
      by (simp add: focus_no_photos sameFrame_refl)
  next
    case False
    define t where "t = photos a ! nat \<lfloor>rng a 0 * real (length (photos a))\<rfloor>"
    define h1 where "h1 = (heap a)(t := (heap a t)
        \<lparr>targetPosition := stagePosition (isMobile a), scale := stageScale (isMobile a)\<rparr>)"
    have "sameFrame (heap a r) (h1 r)"
      by (simp add: h1_def sameFrame_def)
    moreover have "sameFrame (h1 r) (fst (fold (focusStep (isMobile a) t) (particles a) (h1, skip 1 (rng a))) r)"
      by (rule focus_fold_frame)
    moreover have "heap a' = fst (fold (focusStep (isMobile a) t) (particles a) (h1, skip 1 (rng a)))"
      using assms FOCUS False
      by (auto simp add: updateParticlePositions_def Let_def t_def h1_def
          split: prod.splits if_splits)
    ultimately show ?thesis
      by (simp add: sameFrame_def)
  qed
qed

lemma update_photo_untouched:
  assumes "updateParticlePositions a = Inr a'" and "mode a \<noteq> FOCUS" and "isPhoto (heap a r)"
  shows "heap a' r = heap a r"
proof (cases "mode a")
  case TREE
  with assms show ?thesis
    by (auto simp add: updateParticlePositions_def tree_fold_photo)
next
  case SCATTER
  with assms scatter_fold_photo[of "heap a" r "isMobile a" "particles a" "rng a"]
  show ?thesis
    by (auto simp add: updateParticlePositions_def split: prod.splits)
next
  case FOCUS
  with assms show ?thesis by simp
qed



lemma focus_index:
  assumes "rngOk rs" and "0 < n"
  shows "0 \<le> \<lfloor>rs 0 * real n\<rfloor> \<and> \<lfloor>rs 0 * real n\<rfloor> < int n"
proof -
  have "0 \<le> rs 0" and "rs 0 < 1"
    using assms(1) by (simp_all add: rngOk_def)
  then have "rs 0 * real n < real n" and "0 \<le> rs 0 * real n"
    using assms(2) by simp_all
  then have "\<lfloor>rs 0 * real n\<rfloor> < int n" and "0 \<le> \<lfloor>rs 0 * real n\<rfloor>"
    by (simp_all add: floor_less_iff)
  then show ?thesis
    by simp
qed

lemma update_returns:
  assumes "rngOk (rng a)"
  shows "\<exists>a'. updateParticlePositions a = Inr a'"
proof (cases "mode a")
  case TREE
  then show ?thesis
    by (simp add: updateParticlePositions_def)
next
  case SCATTER
  then show ?thesis
    by (simp add: updateParticlePositions_def split: prod.splits)
next
  case FOCUS
  show ?thesis
  proof (cases "photos a = []")
    case True
    with FOCUS show ?thesis
      by (simp add: focus_no_photos)
  next
    case False
    then have "0 \<le> \<lfloor>rng a 0 * real (length (photos a))\<rfloor>
        \<and> \<lfloor>rng a 0 * real (length (photos a))\<rfloor> < int (length (photos a))"
      using assms by (intro focus_index) simp_all
    with FOCUS False show ?thesis
      by (simp add: updateParticlePositions_def Let_def split: prod.splits)
  qed
qed

text \<open>
  Claim C9. In every mode a layout pass returns, and for every particle object it leaves
  \<open>basePosition\<close>, \<open>velocity\<close>, \<open>rotationSpeed\<close> and \<open>isPhoto\<close> as they were; in TREE
  and SCATTER mode the \<open>targetPosition\<close> and \<open>scale\<close> of a photo particle are unchanged
  as well.
\<close>

theorem layout_frame:
  assumes "rngOk (rng a)"
  shows "\<exists>a'. updateParticlePositions a = Inr a'
       \<and> (\<forall>r. basePosition (heap a' r) = basePosition (heap a r)
              \<and> velocity (heap a' r) = velocity (heap a r)
              \<and> rotationSpeed (heap a' r) = rotationSpeed (heap a r)
              \<and> isPhoto (heap a' r) = isPhoto (heap a r)
              \<and> ((mode a = TREE \<or> mode a = SCATTER) \<and> isPhoto (heap a r) \<longrightarrow>
                   targetPosition (heap a' r) = targetPosition (heap a r)
                   \<and> scale (heap a' r) = scale (heap a r)))"
proof -
  obtain a' where ret: "updateParticlePositions a = Inr a'"
    using update_returns[OF assms] by blast
  have "sameFrame (heap a r) (heap a' r)" for r
    using ret by (rule update_frame)
  moreover have "heap a' r = heap a r"
    if "mode a = TREE \<or> mode a = SCATTER" and "isPhoto (heap a r)" for r
    using update_photo_untouched[OF ret _ that(2)] that(1) by auto
  ultimately show ?thesis
    using ret by (auto simp add: sameFrame_def)
qed

theorem layout_frame_witness:
  "rngOk (rng (exampleApp SCATTER (\<lambda>_. 0)))
   \<and> (\<exists>a'. updateParticlePositions (exampleApp SCATTER (\<lambda>_. 0)) = Inr a'
        \<and> basePosition (heap a' 1) = Vector3 1 1 1
        \<and> isPhoto (heap a' 1)
        \<and> targetPosition (heap a' 1) = Vector3 0 0 0
        \<and> scale (heap a' 1) = 1)"
proof -
  let ?a = "exampleApp SCATTER (\<lambda>_. 0)"
  have ok: "rngOk (rng ?a)"
    by (simp add: exampleApp_def rngOk_def)
  have pre: "mode ?a = SCATTER" "heap ?a 1 = exampleHeap 1" "isPhoto (exampleHeap 1)"
    by (simp_all add: exampleApp_def exampleHeap_def)
  obtain a' where "updateParticlePositions ?a = Inr a'"
    and "\<forall>r. basePosition (heap a' r) = basePosition (heap ?a r)
              \<and> velocity (heap a' r) = velocity (heap ?a r)
              \<and> rotationSpeed (heap a' r) = rotationSpeed (heap ?a r)
              \<and> isPhoto (heap a' r) = isPhoto (heap ?a r)
              \<and> ((mode ?a = TREE \<or> mode ?a = SCATTER) \<and> isPhoto (heap ?a r) \<longrightarrow>
                   targetPosition (heap a' r) = targetPosition (heap ?a r)
                   \<and> scale (heap a' r) = scale (heap ?a r))"
    using layout_frame[OF ok] by blast
  then have "updateParticlePositions ?a = Inr a'
        \<and> basePosition (heap a' 1) = Vector3 1 1 1
        \<and> isPhoto (heap a' 1)
        \<and> targetPosition (heap a' 1) = Vector3 0 0 0
        \<and> scale (heap a' 1) = 1"
    using pre by (simp add: exampleHeap_def)
  with ok show ?thesis
    by blast
qed

text \<open>
  Claim C4. When the particle collection holds no photo particle, a FOCUS pass returns the
  state it was given: no \<open>targetPosition\<close>, no \<open>scale\<close> and nothing else changes.
\<close>

theorem focus_without_photos_noop:
  assumes "mode a = FOCUS" and "consistent a"
      and "\<forall>r \<in> set (particles a). \<not> isPhoto (heap a r)"
  shows "updateParticlePositions a = Inr a"
proof -
  have "filter (\<lambda>r. isPhoto (heap a r)) (particles a) = []"
    using assms(3) by (simp add: filter_empty_conv)
  with assms(2) have "photos a = []"
    by (simp add: consistent_def)
  with assms(1) show ?thesis
    by (rule focus_no_photos)
qed

theorem focus_without_photos_noop_witness:
  "mode (decorApp FOCUS (\<lambda>_. 0)) = FOCUS \<and> consistent (decorApp FOCUS (\<lambda>_. 0))
   \<and> photoCount (decorApp FOCUS (\<lambda>_. 0)) = 0
   \<and> updateParticlePositions (decorApp FOCUS (\<lambda>_. 0)) = Inr (decorApp FOCUS (\<lambda>_. 0))"
proof -
  have h: "mode (decorApp FOCUS (\<lambda>_. 0)) = FOCUS" "consistent (decorApp FOCUS (\<lambda>_. 0))"
    "\<forall>r \<in> set (particles (decorApp FOCUS (\<lambda>_. 0))). \<not> isPhoto (heap (decorApp FOCUS (\<lambda>_. 0)) r)"
    "photoCount (decorApp FOCUS (\<lambda>_. 0)) = 0"
    by (simp_all add: decorApp_def consistent_def exampleHeap_def photoCount_def)
  with focus_without_photos_noop[of "decorApp FOCUS (\<lambda>_. 0)"] show ?thesis
    by simp
qed

section \<open>Properties of the SCATTER layout\<close>

lemma rngOk_drawsFrom:
  assumes "list_all (\<lambda>u. 0 \<le> u \<and> u < 1) us"
  shows "rngOk (drawsFrom us)"
  using assms by (simp add: rngOk_def drawsFrom_def list_all_length)

lemma fold_establish:
  assumes keep: "\<And>x s. I s \<Longrightarrow> I (f x s)"
      and est: "\<And>s. I s \<Longrightarrow> Q (f r s)"
      and pres: "\<And>x s. I s \<Longrightarrow> Q s \<Longrightarrow> Q (f x s)"
      and "r \<in> set xs" and "I s"
  shows "Q (fold f xs s)"
  using assms(4,5)
proof (induction xs arbitrary: s)
  case Nil
  then show ?case by simp
next
  case (Cons x xs)
  show ?case
  proof (cases "x = r")
    case True
    have "I (f r s) \<and> Q (f r s)"
      using Cons.prems(2) keep est by simp
    then have "I (fold f xs (f r s)) \<and> Q (fold f xs (f r s))"
      by (rule fold_invariant[where P = "\<lambda>s. I s \<and> Q s", rotated]) (simp add: keep pres)
    with True show ?thesis by simp
  next
    case False
    with Cons.prems(1) have "r \<in> set xs" by simp
    moreover have "I (f x s)"
      using Cons.prems(2) by (rule keep)
    ultimately have "Q (fold f xs (f x s))"
      by (rule Cons.IH)
    then show ?thesis by simp
  qed
qed

lemma hradius_polar_abs:
  "hradius (Vector3 (\<rho> * cos w) y (\<rho> * sin w)) = \<bar>\<rho>\<bar>"
proof -
  have "(\<rho> * cos w)\<^sup>2 + (\<rho> * sin w)\<^sup>2 = \<rho>\<^sup>2 * ((cos w)\<^sup>2 + (sin w)\<^sup>2)"
    by (simp only: power_mult_distrib distrib_left)
  also have "\<dots> = \<rho>\<^sup>2"
    by simp
  finally show ?thesis
    by (simp add: hradius_def)
qed

lemma hradius_le_vlength: "hradius v \<le> vlength v"
  by (simp add: hradius_def vlength_def)

lemma vlength_bound:
  assumes "hradius v \<le> M" and "\<bar>vy v\<bar> \<le> 3 / 4 * M"
  shows "vlength v \<le> 5 / 4 * M"
proof -
  have M: "0 \<le> M"
    using assms(2) by linarith
  have "0 \<le> hradius v"
    by (simp add: hradius_def)
  with assms(1) have "(hradius v)\<^sup>2 \<le> M\<^sup>2"
    by (simp add: power_mono)
  moreover have "(hradius v)\<^sup>2 = (vx v)\<^sup>2 + (vz v)\<^sup>2"
    by (simp add: hradius_def)
  moreover have "(vy v)\<^sup>2 \<le> (3 / 4 * M)\<^sup>2"
    using assms(2) by (metis abs_ge_zero power2_abs power_mono)
  ultimately have "(vx v)\<^sup>2 + (vy v)\<^sup>2 + (vz v)\<^sup>2 \<le> M\<^sup>2 + (3 / 4 * M)\<^sup>2"
    by linarith
  also have "\<dots> = (5 / 4 * M)\<^sup>2"
    by (simp add: power2_eq_square algebra_simps)
  finally have "sqrt ((vx v)\<^sup>2 + (vy v)\<^sup>2 + (vz v)\<^sup>2) \<le> sqrt ((5 / 4 * M)\<^sup>2)"
    by (simp only: real_sqrt_le_iff)
  then show ?thesis
    using M by (simp add: vlength_def)
qed

lemma scatterTarget_bound:
  assumes "0 \<le> u0" "u0 < 1" "0 \<le> u3" "u3 < 1"
  shows "scatterBound mobile (scatterTarget mobile u0 u1 u2 u3)"
proof -
  define r where "r = scatterMinRadius mobile + u0 * (scatterMaxRadius mobile - scatterMinRadius mobile)"
  define v where "v = scatterTarget mobile u0 u1 u2 u3"
  have gap: "0 \<le> scatterMaxRadius mobile - scatterMinRadius mobile" and lo: "0 \<le> scatterMinRadius mobile"
    by (simp_all add: scatterMaxRadius_def scatterMinRadius_def)
  have "u0 * (scatterMaxRadius mobile - scatterMinRadius mobile)
          \<le> 1 * (scatterMaxRadius mobile - scatterMinRadius mobile)"
    using assms(2) gap by (intro mult_right_mono) simp_all
  then have r_hi: "r \<le> scatterMaxRadius mobile"
    by (simp add: r_def)
  have "0 \<le> u0 * (scatterMaxRadius mobile - scatterMinRadius mobile)"
    using assms(1) gap by simp
  with lo have r_lo: "0 \<le> r"
    by (simp add: r_def)
  have "hradius v = \<bar>r * sin (arccos (2 * u2 - 1))\<bar>"
    by (simp add: v_def scatterTarget_def Let_def r_def hradius_polar_abs)
  also have "\<dots> = r * \<bar>sin (arccos (2 * u2 - 1))\<bar>"
    using r_lo by (simp add: abs_mult)
  also have "\<dots> \<le> r * 1"
    using r_lo by (intro mult_left_mono) simp_all
  finally have h: "hradius v \<le> scatterMaxRadius mobile"
    using r_hi by simp
  have "\<bar>u3 - 1 / 2\<bar> \<le> 1 / 2"
    using assms(3,4) by linarith
  moreover have "0 \<le> scatterMaxRadius mobile"
    using gap lo by linarith
  ultimately have a: "\<bar>u3 - 1 / 2\<bar> * scatterMaxRadius mobile \<le> 1 / 2 * scatterMaxRadius mobile"
    by (intro mult_right_mono) simp_all
  have b: "\<bar>vy v\<bar> = 3 / 2 * (\<bar>u3 - 1 / 2\<bar> * scatterMaxRadius mobile)"
    using \<open>0 \<le> scatterMaxRadius mobile\<close>
    by (simp add: v_def scatterTarget_def Let_def abs_mult)
  have y: "\<bar>vy v\<bar> \<le> 3 / 4 * scatterMaxRadius mobile"
    using a b by linarith
  from h y vlength_bound[OF h y] show ?thesis
    by (simp add: scatterBound_def v_def)
qed

lemma scatter_fold_bound:
  assumes "r \<in> set ps" and "\<not> isPhoto (h r)" and "rngOk rs"
  shows "scatterBound mobile (targetPosition (fst (fold (scatterStep mobile) ps (h, rs)) r))"
proof (rule fold_establish[where
      I = "\<lambda>hr. rngOk (snd hr) \<and> \<not> isPhoto (fst hr r)" and
      Q = "\<lambda>hr. scatterBound mobile (targetPosition (fst hr r))" and r = r])
  show "rngOk (snd (scatterStep mobile x s)) \<and> \<not> isPhoto (fst (scatterStep mobile x s) r)"
    if "rngOk (snd s) \<and> \<not> isPhoto (fst s r)" for x s
    using that by (cases s) (auto simp add: scatterStep_def rngOk_skip)
  show "scatterBound mobile (targetPosition (fst (scatterStep mobile r s) r))"
    if "rngOk (snd s) \<and> \<not> isPhoto (fst s r)" for s
    using that by (cases s) (auto simp add: scatterStep_def rngOk_def scatterTarget_bound)
  show "scatterBound mobile (targetPosition (fst (scatterStep mobile x s) r))"
    if "rngOk (snd s) \<and> \<not> isPhoto (fst s r)"
      and "scatterBound mobile (targetPosition (fst s r))" for x s
    using that by (cases s) (auto simp add: scatterStep_def rngOk_def scatterTarget_bound)
  show "r \<in> set ps" by fact
  show "rngOk (snd (h, rs)) \<and> \<not> isPhoto (fst (h, rs) r)"
    using assms by simp
qed


text \<open>
  Claim C1, as amended. After a SCATTER pass the target of a decorative particle lies at
  most \<open>maxRadius\<close> from the vertical axis and at most \<open>0.75 \<cdot> maxRadius\<close> above or
  below the origin, so at most \<open>1.25 \<cdot> maxRadius\<close> from the origin, for every outcome of
  the draws. The height is drawn separately from the point on the shell, so the distance
  from the origin is not confined to \<open>[minRadius, maxRadius]\<close>.
\<close>

theorem scatter_target_bounds:
  assumes "mode a = SCATTER" and "rngOk (rng a)"
      and "r \<in> set (particles a)" and "\<not> isPhoto (heap a r)"
  shows "\<exists>a'. updateParticlePositions a = Inr a'
       \<and> hradius (targetPosition (heap a' r)) \<le> scatterMaxRadius (isMobile a)
       \<and> \<bar>vy (targetPosition (heap a' r))\<bar> \<le> 3 / 4 * scatterMaxRadius (isMobile a)
       \<and> vlength (targetPosition (heap a' r)) \<le> 5 / 4 * scatterMaxRadius (isMobile a)"
proof -
  obtain h rs where f: "fold (scatterStep (isMobile a)) (particles a) (heap a, rng a) = (h, rs)"
    by (cases "fold (scatterStep (isMobile a)) (particles a) (heap a, rng a)")
  have "scatterBound (isMobile a) (targetPosition (h r))"
    using scatter_fold_bound[of r "particles a" "heap a" "rng a" "isMobile a"] assms f by simp
  moreover have "updateParticlePositions a = Inr (a\<lparr>heap := h, rng := rs\<rparr>)"
    using assms(1) f by (simp add: updateParticlePositions_def)
  ultimately show ?thesis
    by (simp add: scatterBound_def)
qed

theorem scatter_target_bounds_witness:
  "mode scatterHigh = SCATTER \<and> rngOk (rng scatterHigh) \<and> 0 \<in> set (particles scatterHigh)
   \<and> \<not> isPhoto (heap scatterHigh 0)
   \<and> (\<exists>a'. updateParticlePositions scatterHigh = Inr a'
        \<and> hradius (targetPosition (heap a' 0)) \<le> 20
        \<and> vlength (targetPosition (heap a' 0)) \<le> 25)"
proof -
  have h: "mode scatterHigh = SCATTER" "rngOk (rng scatterHigh)" "0 \<in> set (particles scatterHigh)"
    "\<not> isPhoto (heap scatterHigh 0)" "isMobile scatterHigh = False"
    by (simp_all add: scatterHigh_def decorApp_def exampleHeap_def rngOk_drawsFrom)
  from scatter_target_bounds[OF h(1-4)] h show ?thesis
    by (auto simp add: scatterMaxRadius_def)
qed

text \<open>
  The claim as stated fails in both directions: with the draws 0, 0, 0, 1/2 the
  decorative particle is sent to the origin, below \<open>minRadius = 8\<close>, and with the draws
  9/10, 0, 1/2, 9/10 it is sent to \<open>(18.8, 12, 0)\<close>, beyond \<open>maxRadius = 20\<close>.
\<close>

theorem scatter_magnitude_counterexample:
  "mode scatterLow = SCATTER \<and> rngOk (rng scatterLow) \<and> particles scatterLow = [0]
   \<and> \<not> isPhoto (heap scatterLow 0)
   \<and> mode scatterHigh = SCATTER \<and> rngOk (rng scatterHigh) \<and> particles scatterHigh = [0]
   \<and> \<not> isPhoto (heap scatterHigh 0)
   \<and> updateParticlePositions scatterLow =
     Inr (scatterLow\<lparr>heap := (heap scatterLow)(0 := (heap scatterLow 0)
                          \<lparr>targetPosition := Vector3 0 0 0, scale := 4 / 5\<rparr>),
                     rng := skip 5 (rng scatterLow)\<rparr>)
   \<and> vlength (Vector3 0 0 0) < scatterMinRadius (isMobile scatterLow)
   \<and> updateParticlePositions scatterHigh =
     Inr (scatterHigh\<lparr>heap := (heap scatterHigh)(0 := (heap scatterHigh 0)
                          \<lparr>targetPosition := Vector3 (94 / 5) 12 0, scale := 4 / 5\<rparr>),
                     rng := skip 5 (rng scatterHigh)\<rparr>)
   \<and> scatterMaxRadius (isMobile scatterHigh) < vlength (Vector3 (94 / 5) 12 0)"
proof -
  have low: "updateParticlePositions scatterLow =
     Inr (scatterLow\<lparr>heap := (heap scatterLow)(0 := (heap scatterLow 0)
                          \<lparr>targetPosition := Vector3 0 0 0, scale := 4 / 5\<rparr>),
                     rng := skip 5 (rng scatterLow)\<rparr>)"
    by (simp add: updateParticlePositions_def scatterLow_def decorApp_def exampleHeap_def
        scatterStep_def scatterTarget_def drawsFrom_def scatterMinRadius_def scatterMaxRadius_def)
  have high: "updateParticlePositions scatterHigh =
     Inr (scatterHigh\<lparr>heap := (heap scatterHigh)(0 := (heap scatterHigh 0)
                          \<lparr>targetPosition := Vector3 (94 / 5) 12 0, scale := 4 / 5\<rparr>),
                     rng := skip 5 (rng scatterHigh)\<rparr>)"
    by (simp add: updateParticlePositions_def scatterHigh_def decorApp_def exampleHeap_def
        scatterStep_def scatterTarget_def drawsFrom_def scatterMinRadius_def scatterMaxRadius_def)
  have "vlength (Vector3 0 0 0) < scatterMinRadius (isMobile scatterLow)"
    by (simp add: vlength_def scatterMinRadius_def)
  moreover have "(20::real)\<^sup>2 < (94 / 5)\<^sup>2 + 12\<^sup>2 + 0\<^sup>2"
    by (simp add: power2_eq_square)
  then have "sqrt (20\<^sup>2) < sqrt ((94 / 5)\<^sup>2 + 12\<^sup>2 + 0\<^sup>2)"
    by (simp only: real_sqrt_less_iff)
  then have "scatterMaxRadius (isMobile scatterHigh) < vlength (Vector3 (94 / 5) 12 0)"
    by (simp add: vlength_def scatterMaxRadius_def scatterHigh_def decorApp_def)
  moreover have "mode scatterLow = SCATTER \<and> rngOk (rng scatterLow) \<and> particles scatterLow = [0]
      \<and> \<not> isPhoto (heap scatterLow 0)"
    by (simp add: scatterLow_def decorApp_def exampleHeap_def rngOk_drawsFrom)
  moreover have "mode scatterHigh = SCATTER \<and> rngOk (rng scatterHigh) \<and> particles scatterHigh = [0]
      \<and> \<not> isPhoto (heap scatterHigh 0)"
    by (simp add: scatterHigh_def decorApp_def exampleHeap_def rngOk_drawsFrom)
  ultimately show ?thesis
    using low high by blast
qed

section \<open>Properties of the FOCUS layout\<close>

lemma otherPhotoTarget_hradius:
  assumes "0 \<le> u1"
  shows "hradius (otherPhotoTarget mobile u0 u1 u2) = otherPhotoMinRadius mobile + u1 * 10"
proof -
  have "0 \<le> otherPhotoMinRadius mobile + u1 * 10"
    using assms by (simp add: otherPhotoMinRadius_def)
  then show ?thesis
    by (simp add: otherPhotoTarget_def Let_def hradius_polar)
qed

lemma focus_fold_target:
  "fst (fold (focusStep mobile t) ps (h, rs)) t = h t"
  using fold_invariant[where P = "\<lambda>hr. fst hr t = h t" and f = "focusStep mobile t"
      and s = "(h, rs)" and xs = ps]
  by (auto simp add: focusStep_def split: prod.splits)

lemma focus_fold_ring:
  assumes "r \<in> set ps" and "r \<noteq> t" and "isPhoto (h r)" and "rngOk rs"
  shows "otherPhotoMinRadius mobile \<le> hradius (targetPosition (fst (fold (focusStep mobile t) ps (h, rs)) r))
       \<and> hradius (targetPosition (fst (fold (focusStep mobile t) ps (h, rs)) r)) < otherPhotoMinRadius mobile + 10
       \<and> scale (fst (fold (focusStep mobile t) ps (h, rs)) r) = (if mobile then 0.8 else 1)"
proof (rule fold_establish[where
      I = "\<lambda>hr. rngOk (snd hr) \<and> isPhoto (fst hr r)" and
      Q = "\<lambda>hr. otherPhotoMinRadius mobile \<le> hradius (targetPosition (fst hr r))
                \<and> hradius (targetPosition (fst hr r)) < otherPhotoMinRadius mobile + 10
                \<and> scale (fst hr r) = (if mobile then 0.8 else 1)" and r = r])
  show "rngOk (snd (focusStep mobile t x s)) \<and> isPhoto (fst (focusStep mobile t x s) r)"
    if "rngOk (snd s) \<and> isPhoto (fst s r)" for x s
    using that by (cases s) (auto simp add: focusStep_def rngOk_skip)
  show "otherPhotoMinRadius mobile \<le> hradius (targetPosition (fst (focusStep mobile t r s) r))
      \<and> hradius (targetPosition (fst (focusStep mobile t r s) r)) < otherPhotoMinRadius mobile + 10
      \<and> scale (fst (focusStep mobile t r s) r) = (if mobile then 0.8 else 1)"
    if "rngOk (snd s) \<and> isPhoto (fst s r)" for s
    using that assms(2)
    by (cases s) (auto simp add: focusStep_def rngOk_def otherPhotoTarget_hradius)
  show "otherPhotoMinRadius mobile \<le> hradius (targetPosition (fst (focusStep mobile t x s) r))
      \<and> hradius (targetPosition (fst (focusStep mobile t x s) r)) < otherPhotoMinRadius mobile + 10
      \<and> scale (fst (focusStep mobile t x s) r) = (if mobile then 0.8 else 1)"
    if "rngOk (snd s) \<and> isPhoto (fst s r)"
      and "otherPhotoMinRadius mobile \<le> hradius (targetPosition (fst s r))
         \<and> hradius (targetPosition (fst s r)) < otherPhotoMinRadius mobile + 10
         \<and> scale (fst s r) = (if mobile then 0.8 else 1)" for x s
    using that
    by (cases s) (auto simp add: focusStep_def rngOk_def otherPhotoTarget_hradius)
  show "r \<in> set ps" by fact
  show "rngOk (snd (h, rs)) \<and> isPhoto (fst (h, rs) r)"
    using assms by simp
qed

lemma consistent_photos:
  assumes "consistent a"
  shows "set (photos a) = {r \<in> set (particles a). isPhoto (heap a r)}"
proof -
  have "set (filter (\<lambda>r. isPhoto (heap a r)) (particles a)) = set (photos a)"
    using assms by (simp add: consistent_def)
  then show ?thesis
    by auto
qed

text \<open>
  Claim C5. With at least one photo, a FOCUS pass returns and there is one photo particle,
  the subject, whose target is the stage position and whose scale is the enlarged one.
  Every other photo particle gets a target on the outer ring, at least the ring's minimum
  radius from the vertical axis (hence from the origin); it is not at the stage position
  and does not have the enlarged scale. This holds for every outcome of the draws.
\<close>

theorem focus_designates_one_photo:
  assumes "mode a = FOCUS" and "photos a \<noteq> []" and "consistent a" and "rngOk (rng a)"
  shows "\<exists>a' t. updateParticlePositions a = Inr a' \<and> t \<in> set (photos a)
       \<and> targetPosition (heap a' t) = stagePosition (isMobile a)
       \<and> scale (heap a' t) = stageScale (isMobile a)
       \<and> (\<forall>r \<in> set (particles a). isPhoto (heap a r) \<and> r \<noteq> t \<longrightarrow>
            otherPhotoMinRadius (isMobile a) \<le> hradius (targetPosition (heap a' r))
          \<and> otherPhotoMinRadius (isMobile a) \<le> vlength (targetPosition (heap a' r))
          \<and> targetPosition (heap a' r) \<noteq> stagePosition (isMobile a)
          \<and> scale (heap a' r) \<noteq> stageScale (isMobile a))"
proof -
  define k where "k = nat \<lfloor>rng a 0 * real (length (photos a))\<rfloor>"
  define t where "t = photos a ! k"
  define h1 where "h1 = (heap a)(t := (heap a t)
      \<lparr>targetPosition := stagePosition (isMobile a), scale := stageScale (isMobile a)\<rparr>)"
  obtain h rs where f: "fold (focusStep (isMobile a) t) (particles a) (h1, skip 1 (rng a)) = (h, rs)"
    by (cases "fold (focusStep (isMobile a) t) (particles a) (h1, skip 1 (rng a))")
  have fl: "0 \<le> \<lfloor>rng a 0 * real (length (photos a))\<rfloor>
      \<and> \<lfloor>rng a 0 * real (length (photos a))\<rfloor> < int (length (photos a))"
    using assms(2,4) by (intro focus_index) simp_all
  then have k: "k < length (photos a)"
    unfolding k_def by linarith
  then have t: "t \<in> set (photos a)"
    by (simp add: t_def)
  have ret: "updateParticlePositions a = Inr (a\<lparr>heap := h, rng := rs\<rparr>)"
    using assms(1,2) fl f
    by (simp add: updateParticlePositions_def Let_def k_def[symmetric] t_def[symmetric]
        h1_def[symmetric])
  have "h t = h1 t"
    using focus_fold_target[of "isMobile a" t "particles a" h1 "skip 1 (rng a)"] f by simp
  then have stage: "targetPosition (h t) = stagePosition (isMobile a)"
    "scale (h t) = stageScale (isMobile a)"
    by (simp_all add: h1_def)
  have others: "otherPhotoMinRadius (isMobile a) \<le> hradius (targetPosition (h r))
      \<and> otherPhotoMinRadius (isMobile a) \<le> vlength (targetPosition (h r))
      \<and> targetPosition (h r) \<noteq> stagePosition (isMobile a)
      \<and> scale (h r) \<noteq> stageScale (isMobile a)"
    if "r \<in> set (particles a)" and "isPhoto (heap a r)" and "r \<noteq> t" for r
  proof -
    have "isPhoto (h1 r)"
      using that(2,3) by (simp add: h1_def)
    then have ring: "otherPhotoMinRadius (isMobile a) \<le> hradius (targetPosition (h r))
        \<and> hradius (targetPosition (h r)) < otherPhotoMinRadius (isMobile a) + 10
        \<and> scale (h r) = (if isMobile a then 0.8 else 1)"
      using focus_fold_ring[of r "particles a" t h1 "skip 1 (rng a)" "isMobile a"]
        that(1,3) assms(4) f
      by (simp add: rngOk_skip)
    moreover have "hradius (targetPosition (h r)) \<le> vlength (targetPosition (h r))"
      by (rule hradius_le_vlength)
    moreover have "otherPhotoMinRadius (isMobile a) + 10 \<le> hradius (stagePosition (isMobile a))"
      by (simp add: otherPhotoMinRadius_def stagePosition_def hradius_def)
    ultimately show ?thesis
      by (auto simp add: stageScale_def)
  qed
  show ?thesis
    using ret t stage others by auto
qed

theorem focus_designates_one_photo_witness:
  "mode (exampleApp FOCUS (drawsFrom [])) = FOCUS
   \<and> photos (exampleApp FOCUS (drawsFrom [])) = [1, 2]
   \<and> consistent (exampleApp FOCUS (drawsFrom []))
   \<and> rngOk (rng (exampleApp FOCUS (drawsFrom [])))
   \<and> (\<exists>a' t. updateParticlePositions (exampleApp FOCUS (drawsFrom [])) = Inr a'
        \<and> t \<in> set (photos (exampleApp FOCUS (drawsFrom [])))
        \<and> targetPosition (heap a' t) = Vector3 0 2 35 \<and> scale (heap a' t) = 9 / 2)"
proof -
  let ?a = "exampleApp FOCUS (drawsFrom [])"
  have h: "mode ?a = FOCUS" "photos ?a \<noteq> []" "consistent ?a" "rngOk (rng ?a)"
    by (simp_all add: exampleApp_def consistent_def exampleHeap_def rngOk_drawsFrom)
  have e: "photos ?a = [1, 2]" "isMobile ?a = False"
    by (simp_all add: exampleApp_def)
  from focus_designates_one_photo[OF h] h e show ?thesis
    by (auto simp add: stagePosition_def stageScale_def)
qed

section \<open>Properties of photo eviction\<close>

lemma photoParticle_isPhoto: "isPhoto (photoParticle mobile u0 u1 u2)"
  by (simp add: photoParticle_def Let_def)

lemma pushPhoto_consistent:
  assumes "consistent a"
  shows "consistent (pushPhoto a)"
proof -
  have fresh: "\<forall>r \<in> set (particles a). r \<noteq> nextRef a"
    using assms by (auto simp add: consistent_def)
  then have "filter (\<lambda>r. isPhoto (heap (pushPhoto a) r)) (particles a)
           = filter (\<lambda>r. isPhoto (heap a r)) (particles a)"
    by (intro filter_cong) (auto simp add: pushPhoto_def)
  moreover have "isPhoto (heap (pushPhoto a) (nextRef a))"
    by (simp add: pushPhoto_def photoParticle_isPhoto)
  ultimately have "filter (\<lambda>r. isPhoto (heap (pushPhoto a) r)) (particles (pushPhoto a))
           = photos (pushPhoto a)"
    using assms by (simp add: consistent_def pushPhoto_def)
  moreover have "distinct (particles (pushPhoto a))"
    using assms fresh by (auto simp add: consistent_def pushPhoto_def)
  moreover have "\<forall>r \<in> set (particles (pushPhoto a)). r < nextRef (pushPhoto a)"
    using assms by (auto simp add: consistent_def pushPhoto_def less_Suc_eq)
  ultimately show ?thesis
    by (simp add: consistent_def)
qed

lemma pushPhoto_decor:
  assumes "consistent a"
  shows "filter (\<lambda>r. \<not> isPhoto (heap (pushPhoto a) r)) (particles (pushPhoto a))
       = filter (\<lambda>r. \<not> isPhoto (heap a r)) (particles a)"
proof -
  have fresh: "\<forall>r \<in> set (particles a). r \<noteq> nextRef a"
    using assms by (auto simp add: consistent_def)
  then have "filter (\<lambda>r. \<not> isPhoto (heap (pushPhoto a) r)) (particles a)
           = filter (\<lambda>r. \<not> isPhoto (heap a r)) (particles a)"
    by (intro filter_cong) (auto simp add: pushPhoto_def)
  moreover have "isPhoto (heap (pushPhoto a) (nextRef a))"
    by (simp add: pushPhoto_def photoParticle_isPhoto)
  ultimately show ?thesis
    by (simp add: pushPhoto_def)
qed

text \<open>Dropping the oldest photo from both arrays keeps the state consistent.\<close>

lemma evict_consistent:
  assumes "consistent a" and "photos a = oldPhoto # rest"
  shows "consistent (a\<lparr>photos := rest, particles := filter (\<lambda>p. p \<noteq> oldPhoto) (particles a)\<rparr>)"
proof -
  have ph: "filter (\<lambda>r. isPhoto (heap a r)) (particles a) = oldPhoto # rest"
    using assms by (simp add: consistent_def)
  have "distinct (particles a)"
    using assms(1) by (simp add: consistent_def)
  then have "distinct (filter (\<lambda>r. isPhoto (heap a r)) (particles a))"
    by (rule distinct_filter)
  with ph have "oldPhoto \<notin> set rest"
    by simp
  then have "filter (\<lambda>p. p \<noteq> oldPhoto) (oldPhoto # rest) = rest"
    by (auto simp add: filter_id_conv)
  moreover have "filter (\<lambda>r. isPhoto (heap a r)) (filter (\<lambda>p. p \<noteq> oldPhoto) (particles a))
      = filter (\<lambda>p. p \<noteq> oldPhoto) (filter (\<lambda>r. isPhoto (heap a r)) (particles a))"
    by (simp add: conj_commute)
  ultimately have "filter (\<lambda>r. isPhoto (heap a r)) (filter (\<lambda>p. p \<noteq> oldPhoto) (particles a)) = rest"
    using ph by simp
  then show ?thesis
    using assms(1) by (simp add: consistent_def)
qed

lemma evict_decor:
  assumes "consistent a" and "photos a = oldPhoto # rest"
  shows "filter (\<lambda>r. \<not> isPhoto (heap a r)) (filter (\<lambda>p. p \<noteq> oldPhoto) (particles a))
       = filter (\<lambda>r. \<not> isPhoto (heap a r)) (particles a)"
proof -
  have "oldPhoto \<in> set (filter (\<lambda>r. isPhoto (heap a r)) (particles a))"
    using assms by (simp add: consistent_def)
  then have "isPhoto (heap a oldPhoto)"
    by simp
  then show ?thesis
    by (auto intro: filter_cong)
qed

lemma addPhotoToScene_step:
  assumes "consistent a" and "1 \<le> maxPhotos a" and "length (photos a) \<le> maxPhotos a"
  shows "\<exists>a'. addPhotoToScene a = Inr a' \<and> consistent a' \<and> maxPhotos a' = maxPhotos a
       \<and> nextRef a' = Suc (nextRef a)
       \<and> photos a' = (if length (photos a) = maxPhotos a then tl (photos a) else photos a)
                       @ [nextRef a]
       \<and> filter (\<lambda>r. \<not> isPhoto (heap a' r)) (particles a')
           = filter (\<lambda>r. \<not> isPhoto (heap a r)) (particles a)"
proof (cases "length (photos a) = maxPhotos a")
  case False
  with assms(3) have "\<not> maxPhotos a \<le> length (photos a)"
    by simp
  then have "addPhotoToScene a = Inr (pushPhoto a)"
    by (simp add: addPhotoToScene_def)
  moreover have "photos (pushPhoto a) = photos a @ [nextRef a]"
    "maxPhotos (pushPhoto a) = maxPhotos a" "nextRef (pushPhoto a) = Suc (nextRef a)"
    by (simp_all add: pushPhoto_def)
  ultimately show ?thesis
    using False pushPhoto_consistent[OF assms(1)] pushPhoto_decor[OF assms(1)] by simp
next
  case True
  with assms(2) obtain oldPhoto rest where ph: "photos a = oldPhoto # rest"
    by (cases "photos a") auto
  define b where "b = a\<lparr>photos := rest, particles := filter (\<lambda>p. p \<noteq> oldPhoto) (particles a)\<rparr>"
  have cb: "consistent b"
    unfolding b_def using assms(1) ph by (rule evict_consistent)
  have "addPhotoToScene a = Inr (pushPhoto b)"
    using True ph by (simp add: addPhotoToScene_def b_def)
  moreover have "photos (pushPhoto b) = tl (photos a) @ [nextRef a]"
    "maxPhotos (pushPhoto b) = maxPhotos a" "nextRef (pushPhoto b) = Suc (nextRef a)"
    using ph by (simp_all add: pushPhoto_def b_def)
  moreover have "filter (\<lambda>r. \<not> isPhoto (heap (pushPhoto b) r)) (particles (pushPhoto b))
      = filter (\<lambda>r. \<not> isPhoto (heap a r)) (particles a)"
    using pushPhoto_decor[OF cb] evict_decor[OF assms(1) ph] by (simp add: b_def)
  ultimately show ?thesis
    using True pushPhoto_consistent[OF cb] by simp
qed

lemma addPhotos_fifo:
  assumes "consistent a" and "1 \<le> maxPhotos a" and "length (photos a) \<le> maxPhotos a"
  shows "\<exists>a'. addPhotos n a = Inr a' \<and> consistent a' \<and> maxPhotos a' = maxPhotos a
       \<and> photos a' = drop (length (photos a) + n - maxPhotos a)
                           (photos a @ [nextRef a ..< nextRef a + n])
       \<and> filter (\<lambda>r. \<not> isPhoto (heap a' r)) (particles a')
           = filter (\<lambda>r. \<not> isPhoto (heap a r)) (particles a)"
  using assms
proof (induction n arbitrary: a)
  case 0
  then show ?case by simp
next
  case (Suc n)
  obtain b where b: "addPhotoToScene a = Inr b" "consistent b" "maxPhotos b = maxPhotos a"
    "nextRef b = Suc (nextRef a)"
    "photos b = (if length (photos a) = maxPhotos a then tl (photos a) else photos a) @ [nextRef a]"
    "filter (\<lambda>r. \<not> isPhoto (heap b r)) (particles b) = filter (\<lambda>r. \<not> isPhoto (heap a r)) (particles a)"
    using addPhotoToScene_step[OF Suc.prems] by blast
  have lb: "length (photos b) \<le> maxPhotos b"
    using b(3,5) Suc.prems(2,3) by (auto split: if_splits)
  obtain a' where a': "addPhotos n b = Inr a'" "consistent a'" "maxPhotos a' = maxPhotos b"
    "photos a' = drop (length (photos b) + n - maxPhotos b) (photos b @ [nextRef b ..< nextRef b + n])"
    "filter (\<lambda>r. \<not> isPhoto (heap a' r)) (particles a') = filter (\<lambda>r. \<not> isPhoto (heap b r)) (particles b)"
    using Suc.IH[OF b(2) _ lb] Suc.prems(2) b(3) by auto
  define ws where "ws = [nextRef b ..< nextRef b + n]"
  have up: "[nextRef a ..< nextRef a + Suc n] = nextRef a # ws"
    by (simp add: ws_def b(4) upt_conv_Cons)
  have pa': "photos a' = drop (length (photos b) + n - maxPhotos a) (photos b @ ws)"
    using a'(4) b(3) by (simp add: ws_def)
  have "photos a' = drop (length (photos a) + Suc n - maxPhotos a) (photos a @ nextRef a # ws)"
  proof (cases "length (photos a) = maxPhotos a")
    case True
    with Suc.prems(2) obtain oldPhoto rest where ph: "photos a = oldPhoto # rest"
      by (cases "photos a") auto
    have "photos b = rest @ [nextRef a]"
      using b(5) True ph by simp
    moreover have "length rest + 1 = maxPhotos a"
      using True ph by simp
    ultimately have "photos a' = drop n (rest @ nextRef a # ws)"
      using pa' by simp
    moreover have "length (photos a) + Suc n - maxPhotos a = Suc n"
      using True by simp
    ultimately show ?thesis
      using ph by simp
  next
    case False
    then have "photos b = photos a @ [nextRef a]"
      using b(5) by simp
    then show ?thesis
      using pa' by simp
  qed
  then have "photos a' = drop (length (photos a) + Suc n - maxPhotos a)
                      (photos a @ [nextRef a ..< nextRef a + Suc n])"
    by (simp only: up)
  then show ?case
    using b(1,3,6) a'(1,2,3,5) by simp
qed

text \<open>
  Claim C3. From a consistent state that holds at most \<open>maxPhotos \<ge> 1\<close> photos, every
  sequence of \<open>n\<close> additions succeeds. Afterwards \<^verbatim>\<open>photos\<close> is the list of the old
  photos followed by the \<open>n\<close> new ones, in order of addition, with the oldest dropped from
  the front until \<open>maxPhotos\<close> remain: eviction is first in, first out. The photo
  particles of \<^verbatim>\<open>particles\<close> are exactly \<^verbatim>\<open>photos\<close>, so their number never
  exceeds \<open>maxPhotos\<close>, and the decorative particles are untouched.
\<close>

theorem photo_eviction_fifo:
  assumes "consistent a" and "1 \<le> maxPhotos a" and "length (photos a) \<le> maxPhotos a"
  shows "\<exists>a'. addPhotos n a = Inr a' \<and> maxPhotos a' = maxPhotos a
       \<and> photos a' = drop (length (photos a) + n - maxPhotos a)
                           (photos a @ [nextRef a ..< nextRef a + n])
       \<and> filter (\<lambda>r. isPhoto (heap a' r)) (particles a') = photos a'
       \<and> filter (\<lambda>r. \<not> isPhoto (heap a' r)) (particles a')
           = filter (\<lambda>r. \<not> isPhoto (heap a r)) (particles a)
       \<and> photoCount a' \<le> maxPhotos a"
proof -
  obtain a' where a': "addPhotos n a = Inr a'" "consistent a'" "maxPhotos a' = maxPhotos a"
    "photos a' = drop (length (photos a) + n - maxPhotos a) (photos a @ [nextRef a ..< nextRef a + n])"
    "filter (\<lambda>r. \<not> isPhoto (heap a' r)) (particles a') = filter (\<lambda>r. \<not> isPhoto (heap a r)) (particles a)"
    using addPhotos_fifo[OF assms] by blast
  have ph: "filter (\<lambda>r. isPhoto (heap a' r)) (particles a') = photos a'"
    using a'(2) by (simp add: consistent_def)
  have "length (photos a') = length (photos a) + n - (length (photos a) + n - maxPhotos a)"
    by (simp add: a'(4))
  then have "length (photos a') \<le> maxPhotos a"
    using assms(3) by linarith
  then have "photoCount a' \<le> maxPhotos a"
    using ph by (simp add: photoCount_def)
  with a' ph show ?thesis
    by blast
qed

theorem photo_eviction_fifo_witness:
  "consistent (exampleApp TREE (drawsFrom [])) \<and> maxPhotos (exampleApp TREE (drawsFrom [])) = 2
   \<and> photos (exampleApp TREE (drawsFrom [])) = [1, 2]
   \<and> (\<exists>a'. addPhotos 3 (exampleApp TREE (drawsFrom [])) = Inr a' \<and> photos a' = [4, 5]
        \<and> photoCount a' \<le> 2)"
proof -
  let ?a = "exampleApp TREE (drawsFrom [])"
  have h: "consistent ?a" "1 \<le> maxPhotos ?a" "length (photos ?a) \<le> maxPhotos ?a"
    by (simp_all add: exampleApp_def consistent_def exampleHeap_def)
  have e: "maxPhotos ?a = 2" "photos ?a = [1, 2]" "nextRef ?a = 3"
    by (simp_all add: exampleApp_def)
  have "drop 3 ([1, 2] @ [3 ..< 6]) = [4, 5::nat]"
    by (simp add: upt_rec)
  with photo_eviction_fifo[OF h, of 3] h(1) e show ?thesis
    by auto
qed

section \<open>Properties of the gesture handler\<close>

lemma setMode_returns:
  assumes "rngOk (rng a)"
  shows "\<exists>a'. setMode m a = Inr a' \<and> mode a' = m"
proof -
  obtain a' where "updateParticlePositions (a\<lparr>mode := m\<rparr>) = Inr a'"
    using update_returns[of "a\<lparr>mode := m\<rparr>"] assms by auto
  moreover from this have "mode a' = m"
    using update_lists[of "a\<lparr>mode := m\<rparr>" a'] by simp
  ultimately show ?thesis
    by (simp add: setMode_def)
qed

lemma transition_returns:
  assumes "rngOk (rng a)"
  shows "\<exists>g' a'. transition g a now m = Inr (g', a') \<and> mode a' = m
       \<and> lastGestureTime g' = now \<and> debounceTime g' = debounceTime g"
proof -
  obtain a' where "setMode m a = Inr a'" and "mode a' = m"
    using setMode_returns[OF assms] by blast
  then show ?thesis
    by (simp add: transition_def)
qed

lemma debounced_noop:
  assumes "now - lastGestureTime g < debounceTime g"
  shows "processGestures (g, a) now landmarks = Inr (g, a)"
  using assms by (simp add: processGestures_def)

lemma qualifying_transition:
  assumes "\<not> now - lastGestureTime g < debounceTime g" and "qualifying (mode a) landmarks"
      and "rngOk (rng a)"
  shows "\<exists>g' a'. processGestures (g, a) now landmarks = Inr (g', a') \<and> mode a' \<noteq> mode a
       \<and> lastGestureTime g' = now \<and> debounceTime g' = debounceTime g"
proof -
  have len: "\<not> length landmarks \<le> 20"
    using assms(2) by (simp add: qualifying_def)
  consider (pinch) "pinchDistance landmarks < 0.05 \<and> mode a \<noteq> FOCUS"
    | (fist) "\<not> (pinchDistance landmarks < 0.05 \<and> mode a \<noteq> FOCUS)"
        "avgDistance landmarks < 0.25 \<and> mode a \<noteq> TREE"
    | (opened) "\<not> (pinchDistance landmarks < 0.05 \<and> mode a \<noteq> FOCUS)"
        "\<not> (avgDistance landmarks < 0.25 \<and> mode a \<noteq> TREE)"
        "avgDistance landmarks > 0.4 \<and> mode a \<noteq> SCATTER"
    using assms(2) by (auto simp add: qualifying_def)
  then show ?thesis
  proof cases
    case pinch
    then have "processGestures (g, a) now landmarks = transition g a now FOCUS"
      using assms(1) len by (simp add: processGestures_def)
    with transition_returns[OF assms(3), of g now FOCUS] pinch show ?thesis
      by auto
  next
    case fist
    then have "processGestures (g, a) now landmarks = transition g a now TREE"
      using assms(1) len by (auto simp add: processGestures_def)
    with transition_returns[OF assms(3), of g now TREE] fist show ?thesis
      by auto
  next
    case opened
    then have "processGestures (g, a) now landmarks = transition g a now SCATTER"
      using assms(1) len by (auto simp add: processGestures_def)
    with transition_returns[OF assms(3), of g now SCATTER] opened show ?thesis
      by auto
  qed
qed

text \<open>
  Claim C2, as amended. Outside the debounce window, a frame of 21 landmarks whose pinch
  distance is below the pinch threshold and whose mean fingertip distance is below the
  fist threshold switches every mode other than FOCUS to FOCUS.
\<close>

theorem pinch_before_fist:
  assumes "\<not> now - lastGestureTime g < debounceTime g" and "length landmarks > 20"
      and "pinchDistance landmarks < 0.05" and "avgDistance landmarks < 0.25"
      and "mode a \<noteq> FOCUS" and "rngOk (rng a)"
  shows "\<exists>g' a'. processGestures (g, a) now landmarks = Inr (g', a') \<and> mode a' = FOCUS
       \<and> lastGestureTime g' = now"
proof -
  have "processGestures (g, a) now landmarks = transition g a now FOCUS"
    using assms(1,2,3,5) by (simp add: processGestures_def)
  with transition_returns[OF assms(6), of g now FOCUS] show ?thesis
    by auto
qed

lemma hypot_axis: "hypot a 0 0 = \<bar>a\<bar>" "hypot 0 b 0 = \<bar>b\<bar>"
  by (simp_all add: hypot_def)

lemma fistFrame_values:
  "length fistFrame = 21" "pinchDistance fistFrame = 3 / 100" "avgDistance fistFrame = 1 / 10"
  by (simp_all add: fistFrame_def pinchDistance_def avgDistance_def wristDistance_def hypot_axis)

lemma openFrame_values:
  "length openFrame = 21" "pinchDistance openFrame = 1 / 5" "avgDistance openFrame = 1 / 2"
  by (simp_all add: openFrame_def pinchDistance_def avgDistance_def wristDistance_def hypot_axis)

theorem pinch_before_fist_witness:
  "mode (decorApp TREE (drawsFrom [])) = TREE
   \<and> pinchDistance fistFrame < 0.05 \<and> avgDistance fistFrame < 0.25
   \<and> (\<exists>g' a'. processGestures (newGestureRecognizer, decorApp TREE (drawsFrom [])) 1000 fistFrame
                  = Inr (g', a') \<and> mode a' = FOCUS \<and> lastGestureTime g' = 1000)"
proof -
  let ?a = "decorApp TREE (drawsFrom [])"
  have h: "\<not> 1000 - lastGestureTime newGestureRecognizer < debounceTime newGestureRecognizer"
    "length fistFrame > 20" "pinchDistance fistFrame < 0.05" "avgDistance fistFrame < 0.25"
    "mode ?a \<noteq> FOCUS" "rngOk (rng ?a)"
    by (simp_all add: newGestureRecognizer_def fistFrame_values decorApp_def rngOk_drawsFrom)
  have "mode ?a = TREE"
    by (simp add: decorApp_def)
  with pinch_before_fist[OF h] h(3,4) show ?thesis
    by simp
qed

text \<open>
  The claim as stated, for every current mode, fails when the mode is FOCUS already: the
  pinch branch carries the guard \<^verbatim>\<open>mode !== 'FOCUS'\<close>, so the frame falls through to
  the fist branch and the mode becomes TREE.
\<close>

theorem pinch_in_focus_counterexample:
  "mode (decorApp FOCUS (drawsFrom [])) = FOCUS
   \<and> \<not> 1000 - lastGestureTime newGestureRecognizer < debounceTime newGestureRecognizer
   \<and> length fistFrame = 21 \<and> pinchDistance fistFrame < 0.05 \<and> avgDistance fistFrame < 0.25
   \<and> processGestures (newGestureRecognizer, decorApp FOCUS (drawsFrom [])) 1000 fistFrame
       = Inr (newGestureRecognizer\<lparr>lastGestureTime := 1000\<rparr>,
              (decorApp FOCUS (drawsFrom []))
                \<lparr>mode := TREE,
                 heap := exampleHeap(0 := (exampleHeap 0)
                           \<lparr>targetPosition := Vector3 12 (- 25 / 2) 0, scale := 1\<rparr>)\<rparr>)"
  by (simp add: fistFrame_values processGestures_def transition_def setMode_def
      updateParticlePositions_def decorApp_def newGestureRecognizer_def
      treeStep_def treeTarget_def treeRadius_def treeMaxRadius_def treeHeight_def
      exampleHeap_def enumerate_eq_zip)


text \<open>
  Two inputs closer than the debounce window never both change the mode: if the first one
  did anything, the second one does nothing.
\<close>

lemma at_most_one_transition:
  assumes "processGestures (g, a) t1 frame1 = Inr (g1, a1)"
      and "t2 - t1 < debounceTime g"
  shows "(g1, a1) = (g, a) \<or> processGestures (g1, a1) t2 frame2 = Inr (g1, a1)"
proof (cases "(g1, a1) = (g, a)")
  case True
  then show ?thesis by simp
next
  case False
  from assms(1) False have "lastGestureTime g1 = t1 \<and> debounceTime g1 = debounceTime g"
    by (auto simp add: processGestures_def transition_def split: if_splits sum.splits)
  with assms(2) have "processGestures (g1, a1) t2 frame2 = Inr (g1, a1)"
    by (simp add: debounced_noop)
  then show ?thesis by simp
qed

text \<open>
  Claim C7, as amended. When the first of two inputs qualifies and arrives outside the
  debounce window of any earlier transition, and the second arrives less than the
  debounce time after the first, processing both performs exactly one transition: the
  first input changes the mode and records its time, the second input, whatever its
  frame, changes nothing.
\<close>

theorem debounce_single_transition:
  assumes "\<not> t1 - lastGestureTime g < debounceTime g"
      and "qualifying (mode a) frame1" and "t2 - t1 < debounceTime g" and "rngOk (rng a)"
  shows "\<exists>g' a'. processGestures (g, a) t1 frame1 = Inr (g', a') \<and> mode a' \<noteq> mode a
       \<and> lastGestureTime g' = t1
       \<and> processGestures (g', a') t2 frame2 = Inr (g', a')"
proof -
  obtain g' a' where first: "processGestures (g, a) t1 frame1 = Inr (g', a')"
    "mode a' \<noteq> mode a" "lastGestureTime g' = t1" "debounceTime g' = debounceTime g"
    using qualifying_transition[OF assms(1,2,4)] by blast
  have "t2 - lastGestureTime g' < debounceTime g'"
    using assms(3) first(3,4) by simp
  then have "processGestures (g', a') t2 frame2 = Inr (g', a')"
    by (rule debounced_noop)
  with first show ?thesis
    by blast
qed

theorem debounce_single_transition_witness:
  "qualifying (mode (decorApp TREE (drawsFrom []))) openFrame
   \<and> qualifying SCATTER fistFrame
   \<and> (\<exists>g' a'. processGestures (newGestureRecognizer, decorApp TREE (drawsFrom [])) 1000 openFrame
                  = Inr (g', a')
        \<and> mode a' = SCATTER \<and> lastGestureTime g' = 1000
        \<and> processGestures (g', a') 1400 fistFrame = Inr (g', a'))"
proof -
  let ?a = "decorApp TREE (drawsFrom [])"
  have h: "\<not> 1000 - lastGestureTime newGestureRecognizer < debounceTime newGestureRecognizer"
    "qualifying (mode ?a) openFrame" "1400 - 1000 < debounceTime newGestureRecognizer"
    "rngOk (rng ?a)"
    by (simp_all add: newGestureRecognizer_def qualifying_def openFrame_values decorApp_def
        rngOk_drawsFrom)
  have q: "qualifying SCATTER fistFrame"
    by (simp add: qualifying_def fistFrame_values)
  obtain g' a' where r: "processGestures (newGestureRecognizer, ?a) 1000 openFrame = Inr (g', a')"
    "lastGestureTime g' = 1000" "processGestures (g', a') 1400 fistFrame = Inr (g', a')"
    using debounce_single_transition[OF h, of fistFrame] by blast
  have "processGestures (newGestureRecognizer, ?a) 1000 openFrame
      = transition newGestureRecognizer ?a 1000 SCATTER"
    by (simp add: processGestures_def newGestureRecognizer_def openFrame_values decorApp_def)
  with r(1) have "mode a' = SCATTER"
    using transition_returns[OF h(4), of newGestureRecognizer 1000 SCATTER] by auto
  with h(2) q r show ?thesis
    by blast
qed

text \<open>
  The claim as stated, for every pair of qualifying inputs, fails for a pair that arrives
  inside the debounce window of an earlier transition: both inputs are dropped and no
  transition happens.
\<close>

theorem debounce_zero_transitions_counterexample:
  "qualifying (mode (decorApp TREE (drawsFrom []))) openFrame
   \<and> (1200::int) - 1100 < 500
   \<and> processGestures (\<lparr>lastGestureTime = 1000, debounceTime = 500\<rparr>, decorApp TREE (drawsFrom []))
         1100 openFrame
       = Inr (\<lparr>lastGestureTime = 1000, debounceTime = 500\<rparr>, decorApp TREE (drawsFrom []))
   \<and> processGestures (\<lparr>lastGestureTime = 1000, debounceTime = 500\<rparr>, decorApp TREE (drawsFrom []))
         1200 openFrame
       = Inr (\<lparr>lastGestureTime = 1000, debounceTime = 500\<rparr>, decorApp TREE (drawsFrom []))"
  by (simp add: qualifying_def openFrame_values processGestures_def decorApp_def)

section \<open>Properties of the touch handler\<close>








lemma single_finger_move:
  assumes "length touches = 1" and "touchStartPosX tc \<noteq> 0"
  shows "handleTouchMove (tc, a) touches =
     Inr (tc\<lparr>touchRotationY := touchRotationY tc
                   + (clientX (touches ! 0) - touchStartPosX tc) * sensitivity tc,
              touchRotationX := max (- pi / 3) (min (pi / 3)
                   (touchRotationX tc + (clientY (touches ! 0) - touchStartPosY tc) * sensitivity tc)),
              touchStartPosX := clientX (touches ! 0),
              touchStartPosY := clientY (touches ! 0),
              longPressTimer := False\<rparr>, a)"
  using assms by (simp add: handleTouchMove_def Let_def)

lemma single_finger_idle:
  assumes "length touches = 1" and "touchStartPosX tc = 0"
  shows "handleTouchMove (tc, a) touches = Inr (tc, a)"
  using assms by (simp add: handleTouchMove_def)

lemma clamp_between:
  fixes lo hi x :: real
  assumes "lo \<le> hi"
  shows "lo \<le> max lo (min hi x) \<and> max lo (min hi x) \<le> hi"
  using assms by linarith

lemma clamp_range:
  "- pi / 3 \<le> max (- pi / 3) (min (pi / 3) x) \<and> max (- pi / 3) (min (pi / 3) x) \<le> pi / 3"
proof (rule clamp_between)
  show "- pi / 3 \<le> pi / 3"
    using pi_ge_zero by linarith
qed

lemma dragOnce_result:
  "dragOnce (tc, a) =
     Inr (tc\<lparr>touchRotationY := touchRotationY tc + 100 * sensitivity tc,
              touchRotationX := max (- pi / 3) (min (pi / 3) (touchRotationX tc)),
              touchStartPosX := 101, touchStartPosY := 0, longPressTimer := False\<rparr>, a)"
  by (simp add: dragOnce_def handleTouchStart_def handleTouchMove_def Let_def)

lemma drags_result:
  "\<exists>tc'. drags k (tc, a) = Inr (tc', a) \<and> sensitivity tc' = sensitivity tc
     \<and> touchRotationY tc' = touchRotationY tc + real k * (100 * sensitivity tc)"
proof (induction k arbitrary: tc)
  case 0
  show ?case by simp
next
  case (Suc k)
  define tc1 where "tc1 = tc\<lparr>touchRotationY := touchRotationY tc + 100 * sensitivity tc,
              touchRotationX := max (- pi / 3) (min (pi / 3) (touchRotationX tc)),
              touchStartPosX := 101, touchStartPosY := 0, longPressTimer := False\<rparr>"
  obtain tc' where r: "drags k (tc1, a) = Inr (tc', a)" "sensitivity tc' = sensitivity tc1"
    "touchRotationY tc' = touchRotationY tc1 + real k * (100 * sensitivity tc1)"
    using Suc.IH[of tc1] by blast
  have "drags (Suc k) (tc, a) = Inr (tc', a)"
    using r(1) by (simp add: dragOnce_result tc1_def)
  moreover have "sensitivity tc' = sensitivity tc"
    using r(2) by (simp add: tc1_def)
  moreover have "touchRotationY tc' = touchRotationY tc + real (Suc k) * (100 * sensitivity tc)"
    using r(3) by (simp add: tc1_def algebra_simps)
  ultimately show ?case
    by blast
qed

text \<open>
  Claim C10. The rotation about the X axis starts inside \<open>[-\<pi>/3, \<pi>/3]\<close>, and a
  single-finger move keeps it there: a move that the handler acts on clamps it, and one it
  ignores leaves it alone. The rotation about the Y axis has no bound: for every \<open>B\<close>
  some number of drags from \<open>(1, 0)\<close> to \<open>(101, 0)\<close>, starting from a new controller,
  takes it beyond \<open>B\<close>.
\<close>

theorem touch_rotation_clamped:
  "- pi / 3 \<le> touchRotationX newTouchController \<and> touchRotationX newTouchController \<le> pi / 3
   \<and> (length touches = 1 \<and>
      (touchStartPosX tc \<noteq> 0 \<or> (- pi / 3 \<le> touchRotationX tc \<and> touchRotationX tc \<le> pi / 3)) \<longrightarrow>
      (\<exists>tc'. handleTouchMove (tc, a) touches = Inr (tc', a)
         \<and> - pi / 3 \<le> touchRotationX tc' \<and> touchRotationX tc' \<le> pi / 3))
   \<and> (\<exists>k tc'. drags k (newTouchController, a) = Inr (tc', a) \<and> B < touchRotationY tc')"
proof (intro conjI impI)
  show "- pi / 3 \<le> touchRotationX newTouchController"
    and "touchRotationX newTouchController \<le> pi / 3"
    using pi_ge_zero by (simp_all add: newTouchController_def)
next
  assume h: "length touches = 1 \<and>
      (touchStartPosX tc \<noteq> 0 \<or> (- pi / 3 \<le> touchRotationX tc \<and> touchRotationX tc \<le> pi / 3))"
  show "\<exists>tc'. handleTouchMove (tc, a) touches = Inr (tc', a)
         \<and> - pi / 3 \<le> touchRotationX tc' \<and> touchRotationX tc' \<le> pi / 3"
  proof (cases "touchStartPosX tc = 0")
    case True
    with h show ?thesis
      by (simp add: single_finger_idle)
  next
    case False
    with h show ?thesis
      using clamp_range by (simp add: single_finger_move)
  qed
next
  obtain k where k: "2 * B < real k"
    using reals_Archimedean2 by blast
  obtain tc' where r: "drags k (newTouchController, a) = Inr (tc', a)"
    "touchRotationY tc' = touchRotationY newTouchController
       + real k * (100 * sensitivity newTouchController)"
    using drags_result[of k newTouchController a] by blast
  have "touchRotationY tc' = real k / 2"
    using r(2) by (simp add: newTouchController_def)
  with k have "B < touchRotationY tc'"
    by simp
  with r(1) show "\<exists>k tc'. drags k (newTouchController, a) = Inr (tc', a) \<and> B < touchRotationY tc'"
    by blast
qed

theorem touch_rotation_clamped_witness:
  "(\<exists>tc'. handleTouchMove (newTouchController\<lparr>touchStartPosX := 10, touchStartPosY := 10\<rparr>,
               decorApp TREE (drawsFrom [])) [Touch 20 1010]
             = Inr (tc', decorApp TREE (drawsFrom []))
        \<and> - pi / 3 \<le> touchRotationX tc' \<and> touchRotationX tc' \<le> pi / 3)
   \<and> (\<exists>k tc'. drags k (newTouchController, decorApp TREE (drawsFrom []))
             = Inr (tc', decorApp TREE (drawsFrom [])) \<and> 1000 < touchRotationY tc')"
  using touch_rotation_clamped[of "[Touch 20 1010]"
      "newTouchController\<lparr>touchStartPosX := 10, touchStartPosY := 10\<rparr>"
      "decorApp TREE (drawsFrom [])" 1000]
  by simp

end
